theory Spec2Isabelle
  imports Main "HOL-Library.Word"
begin

unbundle bit_operations_syntax

section \<open>Machine types\<close>

type_synonym uint8_t = "8 word"
type_synonym int8_t = "8 word"
type_synonym uint16_t = "16 word"
type_synonym uint32_t = "32 word"

section \<open>audio_buffer.c: sequence arithmetic\<close>

text \<open>
  \<^verbatim>\<open>uint16_t audio_buffer_sequence_gap(uint16_t expected, uint16_t received)\<close>.
  Both operands are promoted to \<^verbatim>\<open>int\<close> before the arithmetic; the result is converted
  back to \<^verbatim>\<open>uint16_t\<close> on return, which is \<^const>\<open>word_of_int\<close>.
\<close>

definition audio_buffer_sequence_gap :: "uint16_t \<Rightarrow> uint16_t \<Rightarrow> uint16_t" where
  "audio_buffer_sequence_gap expected received =
     (if received \<ge> expected then word_of_int (uint received - uint expected)
      else word_of_int ((0xFFFF - uint expected) + uint received + 1))"

section \<open>audio_buffer.h: frames, statistics and the ring buffer\<close>

definition AUDIO_FRAME_SAMPLES :: nat where "AUDIO_FRAME_SAMPLES = 160"
definition AUDIO_FRAME_SIZE :: nat where "AUDIO_FRAME_SIZE = AUDIO_FRAME_SAMPLES * 2"
definition AUDIO_BUFFER_FRAMES :: nat where "AUDIO_BUFFER_FRAMES = 32"

text \<open>\<^verbatim>\<open>audio_frame_t\<close>; the field \<^verbatim>\<open>length\<close> is \<open>length_f\<close> here.\<close>

record audio_frame_t =
  timestamp :: uint32_t
  sequence :: uint16_t
  length_f :: uint16_t
  samples :: "uint8_t list"
  valid :: bool

record audio_buffer_stats_t =
  frames_written :: uint32_t
  frames_read :: uint32_t
  frames_dropped :: uint32_t
  frames_missed :: uint32_t
  buffer_overruns :: uint32_t
  buffer_underruns :: uint32_t
  max_fill_level :: uint32_t
  last_sequence :: uint16_t

record audio_ring_buffer_t =
  frames :: "audio_frame_t list"
  write_idx :: uint8_t
  read_idx :: uint8_t
  next_sequence :: uint16_t
  stats :: audio_buffer_stats_t

section \<open>audio_buffer.c: the ring buffer\<close>

text \<open>
  The functions take the buffer the pointer refers to and return it updated; the
  \<^verbatim>\<open>if (!buffer) return ...\<close> guards concern a null buffer pointer and have no
  counterpart. Other pointer arguments are options, \<open>None\<close> for \<^verbatim>\<open>NULL\<close>.
  An out-parameter is passed in with the caller's value and returned with the value
  it holds after the call.
\<close>

definition zero_frame :: audio_frame_t where
  "zero_frame = \<lparr>timestamp = 0, sequence = 0, length_f = 0,
     samples = replicate AUDIO_FRAME_SIZE 0, valid = False\<rparr>"

definition zero_stats :: audio_buffer_stats_t where
  "zero_stats = \<lparr>frames_written = 0, frames_read = 0, frames_dropped = 0,
     frames_missed = 0, buffer_overruns = 0, buffer_underruns = 0,
     max_fill_level = 0, last_sequence = 0\<rparr>"

text \<open>\<^verbatim>\<open>audio_buffer_init\<close>: \<^verbatim>\<open>memset\<close> to zero, indices and sequence reset, every frame invalid.\<close>

definition audio_buffer_init :: audio_ring_buffer_t where
  "audio_buffer_init = \<lparr>frames = replicate AUDIO_BUFFER_FRAMES zero_frame,
     write_idx = 0, read_idx = 0, next_sequence = 0, stats = zero_stats\<rparr>"

definition audio_buffer_clear :: "audio_ring_buffer_t \<Rightarrow> audio_ring_buffer_t" where
  "audio_buffer_clear buffer =
     buffer\<lparr>write_idx := 0, read_idx := 0,
       frames := map (\<lambda>f. f\<lparr>valid := False\<rparr>) (frames buffer)\<rparr>"

definition audio_buffer_is_empty :: "audio_ring_buffer_t \<Rightarrow> bool" where
  "audio_buffer_is_empty buffer = (write_idx buffer = read_idx buffer)"

text \<open>
  \<^verbatim>\<open>(buffer->write_idx + 1) % AUDIO_BUFFER_FRAMES\<close> is computed on \<^verbatim>\<open>int\<close> and stored
  in a \<^verbatim>\<open>uint8_t\<close>.
\<close>

definition next_idx :: "uint8_t \<Rightarrow> uint8_t" where
  "next_idx i = of_nat ((unat i + 1) mod AUDIO_BUFFER_FRAMES)"

definition audio_buffer_is_full :: "audio_ring_buffer_t \<Rightarrow> bool" where
  "audio_buffer_is_full buffer =
     (let next_write = next_idx (write_idx buffer) in next_write = read_idx buffer)"

definition audio_buffer_count :: "audio_ring_buffer_t \<Rightarrow> uint8_t" where
  "audio_buffer_count buffer =
     (if write_idx buffer \<ge> read_idx buffer
      then word_of_int (uint (write_idx buffer) - uint (read_idx buffer))
      else word_of_int (int AUDIO_BUFFER_FRAMES - uint (read_idx buffer) + uint (write_idx buffer)))"

text \<open>
  \<^verbatim>\<open>audio_buffer_write(buffer, samples, length, timestamp)\<close>. The value of
  \<^verbatim>\<open>GET_MILLIS()\<close> is the argument \<open>now\<close>. \<^verbatim>\<open>memcpy\<close> replaces the first
  \<^verbatim>\<open>frame->length\<close> bytes of the slot's sample array.
\<close>

definition audio_buffer_write ::
  "audio_ring_buffer_t \<Rightarrow> uint8_t list option \<Rightarrow> uint16_t \<Rightarrow> uint32_t \<Rightarrow> uint32_t
     \<Rightarrow> bool \<times> audio_ring_buffer_t" where
  "audio_buffer_write buffer samples_in len timestamp_in now =
     (case samples_in of
        None \<Rightarrow> (False, buffer)
      | Some smp \<Rightarrow>
          let next_write = next_idx (write_idx buffer) in
          if next_write = read_idx buffer then
            (False, buffer\<lparr>stats := (stats buffer)
               \<lparr>buffer_overruns := buffer_overruns (stats buffer) + 1,
                frames_dropped := frames_dropped (stats buffer) + 1\<rparr>\<rparr>)
          else
            let i = unat (write_idx buffer);
                n = (if unat len > AUDIO_FRAME_SIZE then of_nat AUDIO_FRAME_SIZE else len);
                old = frames buffer ! i;
                frame = old\<lparr>sequence := next_sequence buffer,
                  timestamp := (if timestamp_in \<noteq> 0 then timestamp_in else now),
                  length_f := n,
                  samples := take (unat n) smp @ drop (unat n) (samples old),
                  valid := True\<rparr>;
                b1 = buffer\<lparr>frames := (frames buffer)[i := frame],
                  next_sequence := next_sequence buffer + 1\<rparr>;
                b2 = b1\<lparr>stats := (stats b1)\<lparr>frames_written := frames_written (stats b1) + 1\<rparr>\<rparr>;
                current_fill = audio_buffer_count b2 + 1;
                b3 = (if ucast current_fill > max_fill_level (stats b2)
                      then b2\<lparr>stats := (stats b2)\<lparr>max_fill_level := ucast current_fill\<rparr>\<rparr>
                      else b2)
            in (True, b3\<lparr>write_idx := next_write\<rparr>))"

text \<open>
  \<^verbatim>\<open>audio_buffer_write_frame(buffer, frame)\<close>: the gap accounting comes first and is
  kept also when the buffer turns out to be full.
\<close>

definition audio_buffer_write_frame ::
  "audio_ring_buffer_t \<Rightarrow> audio_frame_t option \<Rightarrow> bool \<times> audio_ring_buffer_t" where
  "audio_buffer_write_frame buffer frame_in =
     (case frame_in of
        None \<Rightarrow> (False, buffer)
      | Some frame \<Rightarrow>
          let expected_seq = last_sequence (stats buffer) + 1;
              st1 = (if sequence frame \<noteq> expected_seq \<and> frames_written (stats buffer) > 0
                     then (stats buffer)\<lparr>frames_missed := frames_missed (stats buffer)
                            + ucast (audio_buffer_sequence_gap expected_seq (sequence frame))\<rparr>
                     else stats buffer);
              st2 = st1\<lparr>last_sequence := sequence frame\<rparr>;
              b1 = buffer\<lparr>stats := st2\<rparr>;
              next_write = next_idx (write_idx b1)
          in
          if next_write = read_idx b1 then
            (False, b1\<lparr>stats := (stats b1)
               \<lparr>buffer_overruns := buffer_overruns (stats b1) + 1,
                frames_dropped := frames_dropped (stats b1) + 1\<rparr>\<rparr>)
          else
            let i = unat (write_idx b1);
                b2 = b1\<lparr>frames := (frames b1)[i := frame\<lparr>valid := True\<rparr>]\<rparr>;
                b3 = b2\<lparr>stats := (stats b2)\<lparr>frames_written := frames_written (stats b2) + 1\<rparr>\<rparr>
            in (True, b3\<lparr>write_idx := next_write\<rparr>))"

text \<open>
  \<^verbatim>\<open>audio_buffer_read(buffer, frame)\<close>: the second component of the result is the
  caller's frame after the call.
\<close>

definition audio_buffer_read ::
  "audio_ring_buffer_t \<Rightarrow> audio_frame_t option
     \<Rightarrow> bool \<times> audio_frame_t option \<times> audio_ring_buffer_t" where
  "audio_buffer_read buffer frame_out =
     (case frame_out of
        None \<Rightarrow> (False, None, buffer)
      | Some f \<Rightarrow>
          if write_idx buffer = read_idx buffer then
            (False, Some f, buffer\<lparr>stats := (stats buffer)
               \<lparr>buffer_underruns := buffer_underruns (stats buffer) + 1\<rparr>\<rparr>)
          else
            let i = unat (read_idx buffer);
                got = frames buffer ! i;
                b1 = buffer\<lparr>frames := (frames buffer)[i := got\<lparr>valid := False\<rparr>]\<rparr>;
                b2 = b1\<lparr>stats := (stats b1)\<lparr>frames_read := frames_read (stats b1) + 1\<rparr>\<rparr>
            in (True, Some got, b2\<lparr>read_idx := next_idx (read_idx buffer)\<rparr>))"

definition audio_buffer_peek ::
  "audio_ring_buffer_t \<Rightarrow> audio_frame_t option \<Rightarrow> bool \<times> audio_frame_t option" where
  "audio_buffer_peek buffer frame_out =
     (case frame_out of
        None \<Rightarrow> (False, None)
      | Some f \<Rightarrow>
          if write_idx buffer = read_idx buffer then (False, Some f)
          else (True, Some (frames buffer ! unat (read_idx buffer))))"

definition audio_buffer_skip :: "audio_ring_buffer_t \<Rightarrow> bool \<times> audio_ring_buffer_t" where
  "audio_buffer_skip buffer =
     (if write_idx buffer = read_idx buffer then (False, buffer)
      else
        let i = unat (read_idx buffer);
            b1 = buffer\<lparr>frames := (frames buffer)[i := (frames buffer ! i)\<lparr>valid := False\<rparr>]\<rparr>
        in (True, b1\<lparr>read_idx := next_idx (read_idx buffer)\<rparr>))"

text \<open>A call of the buffer's interface, and the buffer after a sequence of calls.\<close>

datatype ring_op =
    Write "uint8_t list option" uint16_t uint32_t uint32_t
  | Write_frame "audio_frame_t option"
  | Read "audio_frame_t option"
  | Peek "audio_frame_t option"
  | Skip

fun ring_step :: "audio_ring_buffer_t \<Rightarrow> ring_op \<Rightarrow> audio_ring_buffer_t" where
  "ring_step b (Write s l t now) = snd (audio_buffer_write b s l t now)"
| "ring_step b (Write_frame f) = snd (audio_buffer_write_frame b f)"
| "ring_step b (Read f) = snd (snd (audio_buffer_read b f))"
| "ring_step b (Peek f) = b"
| "ring_step b Skip = snd (audio_buffer_skip b)"

definition ring_run :: "ring_op list \<Rightarrow> audio_ring_buffer_t" where
  "ring_run ops = foldl ring_step audio_buffer_init ops"

text \<open>Well-formedness of a buffer: both indices address a slot of the 32-slot array.\<close>

definition ring_inv :: "audio_ring_buffer_t \<Rightarrow> bool" where
  "ring_inv b = (unat (write_idx b) < AUDIO_BUFFER_FRAMES \<and> unat (read_idx b) < AUDIO_BUFFER_FRAMES
      \<and> length (frames b) = AUDIO_BUFFER_FRAMES)"

section \<open>Decimal rendering\<close>

text \<open>The digits \<^verbatim>\<open>printf\<close> writes for \<^verbatim>\<open>%d\<close> and \<^verbatim>\<open>%u\<close> of a non-negative value.\<close>

definition digit_char :: "nat \<Rightarrow> char" where
  "digit_char d = char_of (48 + d)"

fun dec_string :: "nat \<Rightarrow> string" where
  "dec_string n = (if n < 10 then [digit_char n] else dec_string (n div 10) @ [digit_char (n mod 10)])"

declare dec_string.simps [simp del]

section \<open>config.h and dial_manager.h\<close>

definition DEVICE_ID_LENGTH :: nat where "DEVICE_ID_LENGTH = 8"
definition PASSWORD_MAX_LENGTH :: nat where "PASSWORD_MAX_LENGTH = 16"
definition DIAL_POSITIONS :: nat where "DIAL_POSITIONS = 15"
definition MAX_DIAL_THREADS :: nat where "MAX_DIAL_THREADS = 15"

datatype dial_slot_state_t =
    DIAL_SLOT_EMPTY
  | DIAL_SLOT_SAVED
  | DIAL_SLOT_CONNECTING
  | DIAL_SLOT_CONNECTED
  | DIAL_SLOT_ERROR

datatype dial_connection_type_t = DIAL_CONN_DEVICE | DIAL_CONN_FREQUENCY

text \<open>
  \<^verbatim>\<open>dial_slot_t\<close>. The character arrays hold C strings and are modelled by the string
  they hold. The task handle is a pointer; \<open>None\<close> is \<^verbatim>\<open>NULL\<close>.
\<close>

record dial_slot_t =
  is_configured :: bool
  conn_type :: dial_connection_type_t
  code :: string
  name :: string
  password :: string
  state :: dial_slot_state_t
  is_muted :: bool
  is_active_audio :: bool
  is_admin :: bool
  member_count :: uint8_t
  task_handle :: "nat option"
  connect_time :: uint32_t
  bytes_sent :: uint32_t
  bytes_received :: uint32_t
  signal_strength :: int8_t

text \<open>\<^verbatim>\<open>dial_manager_t\<close>, without its mutex handle.\<close>

record dial_manager_t =
  slots :: "dial_slot_t list"
  current_position :: uint8_t
  active_threads :: uint8_t

section \<open>dial_manager.c\<close>

text \<open>
  The functions take the manager the pointer refers to and return it updated; the
  \<^verbatim>\<open>!dm\<close> guards have no counterpart. The mutex calls, the log lines and the task
  parameter table are left out: the model is the sequential effect of each function on
  the manager. \<^verbatim>\<open>dial_manager_save_to_nvs\<close> writes to non-volatile storage only and
  leaves the manager as it is.

  The source has two builds. In the simulator build \<^verbatim>\<open>create_connection_thread\<close> marks
  the slot connected at once. In the \<^verbatim>\<open>ESP32\<close> build it calls \<^verbatim>\<open>xTaskCreate\<close>, whose
  outcome is an argument of the model: \<open>Some h\<close> when it returns \<^verbatim>\<open>pdPASS\<close> and stores the
  handle \<open>h\<close>, \<open>None\<close> when it fails.
\<close>

datatype platform = Simulator | ESP32 "nat option"

text \<open>
  Every \<^verbatim>\<open>return false\<close> of \<^verbatim>\<open>dial_manager_connect\<close> and of
  \<^verbatim>\<open>create_connection_thread\<close> is a value of its own here; the C functions return
  \<^verbatim>\<open>false\<close> in all four cases and \<^verbatim>\<open>true\<close> for \<open>Inr ()\<close>.
\<close>

datatype dial_error =
    InvalidPosition
  | SlotUnconfigured
  | SlotLimitReached
  | TaskCreateFailed

text \<open>A slot after \<^verbatim>\<open>memset(slot, 0, sizeof(dial_slot_t))\<close>.\<close>

definition zero_slot :: dial_slot_t where
  "zero_slot = \<lparr>is_configured = False, conn_type = DIAL_CONN_DEVICE, code = [], name = [],
     password = [], state = DIAL_SLOT_EMPTY, is_muted = False, is_active_audio = False,
     is_admin = False, member_count = 0, task_handle = None, connect_time = 0,
     bytes_sent = 0, bytes_received = 0, signal_strength = 0\<rparr>"

text \<open>The blob \<^verbatim>\<open>dial_manager_save_to_nvs\<close> stores for a configured slot.\<close>

record save_data_t =
  sd_conn_type :: dial_connection_type_t
  sd_code :: string
  sd_name :: string
  sd_password :: string

text \<open>
  \<^verbatim>\<open>dial_manager_load_from_nvs\<close>: \<open>nvs i\<close> is the blob stored under the key of slot \<open>i\<close>,
  if there is one. The simulator build, and a namespace that cannot be opened, behave as
  the empty storage does.
\<close>

definition load_slot :: "(nat \<Rightarrow> save_data_t option) \<Rightarrow> nat \<Rightarrow> dial_slot_t list \<Rightarrow> dial_slot_t list" where
  "load_slot nvs i ss =
     (case nvs i of
        None \<Rightarrow> ss
      | Some d \<Rightarrow> ss[i := (ss ! i)\<lparr>is_configured := True, conn_type := sd_conn_type d,
          code := take (DEVICE_ID_LENGTH + 1) (sd_code d), name := take 16 (sd_name d),
          password := take (PASSWORD_MAX_LENGTH + 1) (sd_password d),
          state := DIAL_SLOT_SAVED\<rparr>])"

definition dial_manager_load_from_nvs ::
  "(nat \<Rightarrow> save_data_t option) \<Rightarrow> dial_manager_t \<Rightarrow> bool \<times> dial_manager_t" where
  "dial_manager_load_from_nvs nvs dm =
     (let loaded = length (filter (\<lambda>i. nvs i \<noteq> None) [0..<DIAL_POSITIONS])
      in (loaded > 0, dm\<lparr>slots := fold (load_slot nvs) [0..<DIAL_POSITIONS] (slots dm)\<rparr>))"

definition dial_manager_init :: "(nat \<Rightarrow> save_data_t option) \<Rightarrow> dial_manager_t" where
  "dial_manager_init nvs =
     snd (dial_manager_load_from_nvs nvs
       \<lparr>slots = replicate DIAL_POSITIONS zero_slot, current_position = 0, active_threads = 0\<rparr>)"

text \<open>\<^verbatim>\<open>dial_manager_set_active_audio\<close>: the loop assigns the flag of every slot.\<close>

definition set_audio_flag :: "nat \<Rightarrow> nat \<Rightarrow> dial_slot_t list \<Rightarrow> dial_slot_t list" where
  "set_audio_flag position i ss = ss[i := (ss ! i)\<lparr>is_active_audio := (i = position)\<rparr>]"

definition dial_manager_set_active_audio :: "dial_manager_t \<Rightarrow> uint8_t \<Rightarrow> bool \<times> dial_manager_t" where
  "dial_manager_set_active_audio dm position =
     (if unat position \<ge> DIAL_POSITIONS then (False, dm)
      else (True, dm\<lparr>slots := fold (set_audio_flag (unat position)) [0..<DIAL_POSITIONS] (slots dm)\<rparr>))"

definition dial_manager_set_muted :: "dial_manager_t \<Rightarrow> uint8_t \<Rightarrow> bool \<Rightarrow> dial_manager_t" where
  "dial_manager_set_muted dm position muted =
     (if unat position \<ge> DIAL_POSITIONS then dm
      else dm\<lparr>slots := (slots dm)[unat position := (slots dm ! unat position)\<lparr>is_muted := muted\<rparr>]\<rparr>)"

definition dial_manager_set_position :: "dial_manager_t \<Rightarrow> uint8_t \<Rightarrow> bool \<times> dial_manager_t" where
  "dial_manager_set_position dm position =
     (if unat position \<ge> DIAL_POSITIONS then (False, dm)
      else
        let dm1 = dm\<lparr>current_position := position\<rparr>;
            dm2 = (if state (slots dm1 ! unat position) = DIAL_SLOT_CONNECTED
                   then snd (dial_manager_set_active_audio dm1 position) else dm1)
        in (True, dm2))"

text \<open>
  \<^verbatim>\<open>dial_manager_rotate\<close>: \<^verbatim>\<open>new_pos\<close> is an \<^verbatim>\<open>int8_t\<close>; the sum is stored in it
  modulo \<open>2\<^sup>8\<close> and compared as a signed value.
\<close>

definition dial_manager_rotate :: "dial_manager_t \<Rightarrow> int8_t \<Rightarrow> uint8_t \<times> dial_manager_t" where
  "dial_manager_rotate dm direction =
     (let new_pos0 = current_position dm + direction;
          new_pos1 = (if sint new_pos0 < 0 then of_nat (DIAL_POSITIONS - 1) else new_pos0);
          new_pos2 = (if sint new_pos1 \<ge> int DIAL_POSITIONS then 0 else new_pos1);
          dm1 = snd (dial_manager_set_position dm new_pos2)
      in (current_position dm1, dm1))"

definition destroy_connection_thread :: "dial_manager_t \<Rightarrow> uint8_t \<Rightarrow> dial_manager_t" where
  "destroy_connection_thread dm position =
     (let slot = slots dm ! unat position in
      if task_handle slot = None then dm
      else
        let dm1 = dm\<lparr>slots := (slots dm)[unat position :=
                     slot\<lparr>task_handle := None, is_active_audio := False\<rparr>]\<rparr>
        in if active_threads dm1 > 0 then dm1\<lparr>active_threads := active_threads dm1 - 1\<rparr> else dm1)"

definition create_connection_thread ::
  "platform \<Rightarrow> dial_manager_t \<Rightarrow> uint8_t \<Rightarrow> (dial_error + unit) \<times> dial_manager_t" where
  "create_connection_thread pf dm position =
     (let i = unat position;
          dm1 = dm\<lparr>slots := (slots dm)[i := (slots dm ! i)\<lparr>state := DIAL_SLOT_CONNECTING\<rparr>]\<rparr>
      in case pf of
           ESP32 None \<Rightarrow>
             (Inl TaskCreateFailed,
              dm1\<lparr>slots := (slots dm1)[i := (slots dm1 ! i)\<lparr>state := DIAL_SLOT_ERROR\<rparr>]\<rparr>)
         | ESP32 (Some h) \<Rightarrow>
             (Inr (),
              dm1\<lparr>slots := (slots dm1)[i := (slots dm1 ! i)\<lparr>task_handle := Some h\<rparr>],
                  active_threads := active_threads dm1 + 1\<rparr>)
         | Simulator \<Rightarrow>
             (Inr (),
              dm1\<lparr>slots := (slots dm1)[i := (slots dm1 ! i)
                     \<lparr>task_handle := Some 1, state := DIAL_SLOT_CONNECTED\<rparr>],
                  active_threads := active_threads dm1 + 1\<rparr>))"

definition dial_manager_connect ::
  "platform \<Rightarrow> dial_manager_t \<Rightarrow> uint8_t \<Rightarrow> (dial_error + unit) \<times> dial_manager_t" where
  "dial_manager_connect pf dm position =
     (if unat position \<ge> DIAL_POSITIONS then (Inl InvalidPosition, dm)
      else
        let slot = slots dm ! unat position in
        if \<not> is_configured slot then (Inl SlotUnconfigured, dm)
        else if state slot = DIAL_SLOT_CONNECTED then (Inr (), dm)
        else if unat (active_threads dm) \<ge> MAX_DIAL_THREADS then (Inl SlotLimitReached, dm)
        else create_connection_thread pf dm position)"

definition dial_manager_disconnect :: "dial_manager_t \<Rightarrow> uint8_t \<Rightarrow> bool \<times> dial_manager_t" where
  "dial_manager_disconnect dm position =
     (if unat position \<ge> DIAL_POSITIONS then (False, dm)
      else if task_handle (slots dm ! unat position) = None then (True, dm)
      else
        let dm1 = destroy_connection_thread dm position;
            slot = slots dm1 ! unat position;
            slot' = (if is_configured slot then slot\<lparr>state := DIAL_SLOT_SAVED\<rparr>
                     else slot\<lparr>state := DIAL_SLOT_EMPTY\<rparr>)
        in (True, dm1\<lparr>slots := (slots dm1)[unat position := slot']\<rparr>))"

definition dial_manager_disconnect_all :: "dial_manager_t \<Rightarrow> dial_manager_t" where
  "dial_manager_disconnect_all dm =
     fold (\<lambda>i d. snd (dial_manager_disconnect d (of_nat i))) [0..<DIAL_POSITIONS] dm"

text \<open>
  \<^verbatim>\<open>dial_manager_save_slot\<close>: \<^verbatim>\<open>strncpy\<close> followed by the terminating zero keeps the
  first characters of the string; without a name the slot is called \<^verbatim>\<open>Slot <position + 1>\<close>.
\<close>

definition dial_manager_save_slot ::
  "dial_manager_t \<Rightarrow> uint8_t \<Rightarrow> dial_connection_type_t \<Rightarrow> string option \<Rightarrow> string option
     \<Rightarrow> bool \<times> dial_manager_t" where
  "dial_manager_save_slot dm position ct code_in name_in =
     (case code_in of
        None \<Rightarrow> (False, dm)
      | Some c \<Rightarrow>
          if unat position \<ge> DIAL_POSITIONS then (False, dm)
          else
            let st = state (slots dm ! unat position);
                dm1 = (if st = DIAL_SLOT_CONNECTED \<or> st = DIAL_SLOT_CONNECTING
                       then destroy_connection_thread dm position else dm);
                slot = slots dm1 ! unat position;
                slot' = slot\<lparr>is_configured := True, conn_type := ct,
                  code := take DEVICE_ID_LENGTH c,
                  name := (case name_in of
                             Some n \<Rightarrow> take 15 n
                           | None \<Rightarrow> take 15 (''Slot '' @ dec_string (unat position + 1))),
                  state := DIAL_SLOT_SAVED\<rparr>
            in (True, dm1\<lparr>slots := (slots dm1)[unat position := slot']\<rparr>))"

definition dial_manager_clear_slot :: "dial_manager_t \<Rightarrow> uint8_t \<Rightarrow> bool \<times> dial_manager_t" where
  "dial_manager_clear_slot dm position =
     (if unat position \<ge> DIAL_POSITIONS then (False, dm)
      else
        let dm1 = (if task_handle (slots dm ! unat position) \<noteq> None
                   then destroy_connection_thread dm position else dm)
        in (True, dm1\<lparr>slots := (slots dm1)[unat position := zero_slot]\<rparr>))"

text \<open>
  \<^verbatim>\<open>dial_connection_task\<close>, the worker of a slot, changes the manager in two places of the
  \<^verbatim>\<open>ESP32\<close> build, each under the mutex: it marks its slot connected and stamps the tick
  count, and when its loop \<^verbatim>\<open>while (slot->state == DIAL_SLOT_CONNECTED)\<close> has ended it
  clears the task handle and lowers the thread count. In the simulator build the task
  does nothing.
\<close>

definition dial_connection_task_connected ::
  "dial_manager_t \<Rightarrow> uint8_t \<Rightarrow> uint32_t \<Rightarrow> dial_manager_t" where
  "dial_connection_task_connected dm position tick =
     dm\<lparr>slots := (slots dm)[unat position :=
          (slots dm ! unat position)\<lparr>state := DIAL_SLOT_CONNECTED, connect_time := tick\<rparr>]\<rparr>"

definition dial_connection_task_exit :: "dial_manager_t \<Rightarrow> uint8_t \<Rightarrow> dial_manager_t" where
  "dial_connection_task_exit dm position =
     (if state (slots dm ! unat position) = DIAL_SLOT_CONNECTED then dm
      else
        let dm1 = dm\<lparr>slots := (slots dm)[unat position :=
                     (slots dm ! unat position)\<lparr>task_handle := None\<rparr>]\<rparr>
        in if active_threads dm1 > 0 then dm1\<lparr>active_threads := active_threads dm1 - 1\<rparr> else dm1)"

definition dial_manager_get_active_count :: "dial_manager_t \<Rightarrow> uint8_t" where
  "dial_manager_get_active_count dm = active_threads dm"

text \<open>
  A step of the manager: a call of its interface or one of the two sections of a worker
  task. The task parameter table holds the positions 0 to 14 only; a worker step may
  occur at any time here, also when the slot has no task, which only adds behaviours.
\<close>

datatype dial_op =
    Set_position uint8_t
  | Rotate int8_t
  | Save_slot uint8_t dial_connection_type_t "string option" "string option"
  | Clear_slot uint8_t
  | Connect platform uint8_t
  | Disconnect uint8_t
  | Disconnect_all
  | Set_active_audio uint8_t
  | Set_muted uint8_t bool
  | Task_connected uint8_t uint32_t
  | Task_exit uint8_t

fun dial_step :: "dial_manager_t \<Rightarrow> dial_op \<Rightarrow> dial_manager_t" where
  "dial_step dm (Set_position p) = snd (dial_manager_set_position dm p)"
| "dial_step dm (Rotate d) = snd (dial_manager_rotate dm d)"
| "dial_step dm (Save_slot p ct c n) = snd (dial_manager_save_slot dm p ct c n)"
| "dial_step dm (Clear_slot p) = snd (dial_manager_clear_slot dm p)"
| "dial_step dm (Connect pf p) = snd (dial_manager_connect pf dm p)"
| "dial_step dm (Disconnect p) = snd (dial_manager_disconnect dm p)"
| "dial_step dm Disconnect_all = dial_manager_disconnect_all dm"
| "dial_step dm (Set_active_audio p) = snd (dial_manager_set_active_audio dm p)"
| "dial_step dm (Set_muted p m) = dial_manager_set_muted dm p m"
| "dial_step dm (Task_connected p tick) =
     (if unat p < DIAL_POSITIONS then dial_connection_task_connected dm p tick else dm)"
| "dial_step dm (Task_exit p) =
     (if unat p < DIAL_POSITIONS then dial_connection_task_exit dm p else dm)"

definition dial_run :: "(nat \<Rightarrow> save_data_t option) \<Rightarrow> dial_op list \<Rightarrow> dial_manager_t" where
  "dial_run nvs ops = foldl dial_step (dial_manager_init nvs) ops"

text \<open>The slots whose audio flag is set, and the invariant that there is at most one.\<close>

definition audio_active_slots :: "dial_manager_t \<Rightarrow> nat list" where
  "audio_active_slots dm = filter (\<lambda>i. is_active_audio (slots dm ! i)) [0..<DIAL_POSITIONS]"

definition at_most_one_active_audio :: "dial_manager_t \<Rightarrow> bool" where
  "at_most_one_active_audio dm = (length (audio_active_slots dm) \<le> 1)"

text \<open>The slot array has its 15 entries.\<close>

definition dial_wf :: "dial_manager_t \<Rightarrow> bool" where
  "dial_wf dm = (length (slots dm) = DIAL_POSITIONS)"

text \<open>
  Every audio flag set in the first manager is set in the second: the step from the
  second to the first only cleared flags.
\<close>

definition audio_le :: "dial_manager_t \<Rightarrow> dial_manager_t \<Rightarrow> bool" where
  "audio_le dm' dm = (\<forall>i<DIAL_POSITIONS. is_active_audio (slots dm' ! i) \<longrightarrow> is_active_audio (slots dm ! i))"

text \<open>An empty non-volatile storage.\<close>

definition no_nvs :: "nat \<Rightarrow> save_data_t option" where
  "no_nvs = (\<lambda>_. None)"

text \<open>
  Scenario 6 of the specification in the simulator build: all fifteen slots are saved,
  then connected one after the other.
\<close>

definition connect_all_ops :: "dial_op list" where
  "connect_all_ops =
     map (\<lambda>i. Save_slot (of_nat i) DIAL_CONN_DEVICE (Some ''87654321'') None) [0..<DIAL_POSITIONS]
     @ map (\<lambda>i. Connect Simulator (of_nat i)) [0..<DIAL_POSITIONS]"

text \<open>
  On the \<^verbatim>\<open>ESP32\<close> build a slot that is still \<^verbatim>\<open>CONNECTING\<close> passes the checks of
  \<^verbatim>\<open>dial_manager_connect\<close> again: fifteen calls on slot 0 while slot 1 is saved and
  idle.
\<close>

definition reconnect_ops :: "dial_op list" where
  "reconnect_ops =
     [Save_slot 0 DIAL_CONN_DEVICE (Some ''87654321'') None,
      Save_slot 1 DIAL_CONN_FREQUENCY (Some ''11112222'') (Some ''group'')]
     @ replicate 15 (Connect (ESP32 (Some 7)) 0)"

section \<open>SHA-256 (FIPS 180-4)\<close>

text \<open>
  The \<^verbatim>\<open>ESP32\<close> build of \<^verbatim>\<open>compute_sha256\<close> is the call
  \<^verbatim>\<open>mbedtls_sha256(data, len, output, 0)\<close>. The function belongs to the Mbed TLS library,
  not to the repository; with its last argument 0 it computes the hash function SHA-256
  of FIPS 180-4, which this section defines: the message is padded to a multiple of 64
  bytes (a byte \<^verbatim>\<open>0x80\<close>, zeros, the bit length as a 64-bit big-endian number), every
  64-byte block is expanded into 64 words and run through 64 rounds, and the eight state
  words are written out big-endian.
\<close>

definition sha256_K :: "uint32_t list" where
  "sha256_K =
    [0x428A2F98, 0x71374491, 0xB5C0FBCF, 0xE9B5DBA5, 0x3956C25B, 0x59F111F1,
     0x923F82A4, 0xAB1C5ED5, 0xD807AA98, 0x12835B01, 0x243185BE, 0x550C7DC3,
     0x72BE5D74, 0x80DEB1FE, 0x9BDC06A7, 0xC19BF174, 0xE49B69C1, 0xEFBE4786,
     0x0FC19DC6, 0x240CA1CC, 0x2DE92C6F, 0x4A7484AA, 0x5CB0A9DC, 0x76F988DA,
     0x983E5152, 0xA831C66D, 0xB00327C8, 0xBF597FC7, 0xC6E00BF3, 0xD5A79147,
     0x06CA6351, 0x14292967, 0x27B70A85, 0x2E1B2138, 0x4D2C6DFC, 0x53380D13,
     0x650A7354, 0x766A0ABB, 0x81C2C92E, 0x92722C85, 0xA2BFE8A1, 0xA81A664B,
     0xC24B8B70, 0xC76C51A3, 0xD192E819, 0xD6990624, 0xF40E3585, 0x106AA070,
     0x19A4C116, 0x1E376C08, 0x2748774C, 0x34B0BCB5, 0x391C0CB3, 0x4ED8AA4A,
     0x5B9CCA4F, 0x682E6FF3, 0x748F82EE, 0x78A5636F, 0x84C87814, 0x8CC70208,
     0x90BEFFFA, 0xA4506CEB, 0xBEF9A3F7, 0xC67178F2]"

type_synonym sha256_state =
  "uint32_t \<times> uint32_t \<times> uint32_t \<times> uint32_t \<times> uint32_t \<times> uint32_t \<times> uint32_t \<times> uint32_t"

definition sha256_H0 :: sha256_state where
  "sha256_H0 =
    (0x6A09E667, 0xBB67AE85, 0x3C6EF372, 0xA54FF53A,
     0x510E527F, 0x9B05688C, 0x1F83D9AB, 0x5BE0CD19)"

definition sha256_pad :: "uint8_t list \<Rightarrow> uint8_t list" where
  "sha256_pad m =
     m @ [0x80] @ replicate ((119 - length m mod 64) mod 64) 0
       @ map (\<lambda>k. ucast (drop_bit (8 * k) (of_nat (8 * length m) :: 64 word)))
           [7, 6, 5, 4, 3, 2, 1, 0]"

definition word_of_be :: "uint8_t list \<Rightarrow> uint32_t" where
  "word_of_be bs = foldl (\<lambda>(w :: uint32_t) b. push_bit 8 w OR ucast b) 0 bs"

definition be_bytes :: "uint32_t \<Rightarrow> uint8_t list" where
  "be_bytes w = [ucast (drop_bit 24 w), ucast (drop_bit 16 w), ucast (drop_bit 8 w), ucast w]"

definition sha256_ssig0 :: "uint32_t \<Rightarrow> uint32_t" where
  "sha256_ssig0 x = word_rotr 7 x XOR word_rotr 18 x XOR drop_bit 3 x"

definition sha256_ssig1 :: "uint32_t \<Rightarrow> uint32_t" where
  "sha256_ssig1 x = word_rotr 17 x XOR word_rotr 19 x XOR drop_bit 10 x"

definition sha256_bsig0 :: "uint32_t \<Rightarrow> uint32_t" where
  "sha256_bsig0 x = word_rotr 2 x XOR word_rotr 13 x XOR word_rotr 22 x"

definition sha256_bsig1 :: "uint32_t \<Rightarrow> uint32_t" where
  "sha256_bsig1 x = word_rotr 6 x XOR word_rotr 11 x XOR word_rotr 25 x"

definition sha256_ch :: "uint32_t \<Rightarrow> uint32_t \<Rightarrow> uint32_t \<Rightarrow> uint32_t" where
  "sha256_ch x y z = (x AND y) XOR (NOT x AND z)"

definition sha256_maj :: "uint32_t \<Rightarrow> uint32_t \<Rightarrow> uint32_t \<Rightarrow> uint32_t" where
  "sha256_maj x y z = (x AND y) XOR (x AND z) XOR (y AND z)"

definition sha256_schedule :: "uint8_t list \<Rightarrow> uint32_t list" where
  "sha256_schedule block =
     fold (\<lambda>t w. w @ [sha256_ssig1 (w ! (t - 2)) + w ! (t - 7)
                        + sha256_ssig0 (w ! (t - 15)) + w ! (t - 16)])
       [16..<64]
       (map (\<lambda>j. word_of_be (take 4 (drop (4 * j) block))) [0..<16])"

definition sha256_round :: "uint32_t \<times> uint32_t \<Rightarrow> sha256_state \<Rightarrow> sha256_state" where
  "sha256_round = (\<lambda>(k, w) (a, b, c, d, e, f, g, h).
     let t1 = h + sha256_bsig1 e + sha256_ch e f g + k + w;
         t2 = sha256_bsig0 a + sha256_maj a b c
     in (t1 + t2, a, b, c, d + t1, e, f, g))"

definition sha256_add :: "sha256_state \<Rightarrow> sha256_state \<Rightarrow> sha256_state" where
  "sha256_add = (\<lambda>(a, b, c, d, e, f, g, h) (a', b', c', d', e', f', g', h').
     (a + a', b + b', c + c', d + d', e + e', f + f', g + g', h + h'))"

definition sha256_compress :: "uint8_t list \<Rightarrow> sha256_state \<Rightarrow> sha256_state" where
  "sha256_compress block st =
     sha256_add st (fold sha256_round (zip sha256_K (sha256_schedule block)) st)"

definition sha256 :: "uint8_t list \<Rightarrow> uint8_t list" where
  "sha256 m =
     (let p = sha256_pad m;
          st = fold (\<lambda>i. sha256_compress (take 64 (drop (64 * i) p))) [0..<length p div 64]
                 sha256_H0
      in case st of (a, b, c, d, e, f, g, h) \<Rightarrow>
           concat (map be_bytes [a, b, c, d, e, f, g, h]))"

section \<open>device_id.h and device_id.c: the decimal device id\<close>

definition DEVICE_ID_STRING_SIZE :: nat where "DEVICE_ID_STRING_SIZE = 8"

text \<open>
  \<^verbatim>\<open>compute_sha256\<close> has two bodies, chosen by the macro \<^verbatim>\<open>ESP32\<close>. The \<^verbatim>\<open>ESP32\<close> build
  calls \<^verbatim>\<open>mbedtls_sha256(data, len, output, 0)\<close>: the function \<open>sha256\<close> above. The
  simulator build folds the input into a 32-byte array with exclusive or; the second
  term, \<^verbatim>\<open>(data[i] << 4) | (data[i] >> 4)\<close>, is computed on \<^verbatim>\<open>int\<close> and its low byte is
  what \<^verbatim>\<open>^=\<close> stores.
\<close>

datatype hash_build = Simplified_hash | Mbedtls_sha256

definition simplified_hash_step :: "nat \<times> uint8_t \<Rightarrow> uint8_t list \<Rightarrow> uint8_t list" where
  "simplified_hash_step = (\<lambda>(i, d) out.
     let out1 = out[i mod 32 := (out ! (i mod 32)) XOR d]
     in out1[(i + 1) mod 32 := (out1 ! ((i + 1) mod 32)) XOR (push_bit 4 d OR drop_bit 4 d)])"

definition compute_sha256 :: "hash_build \<Rightarrow> uint8_t list \<Rightarrow> uint8_t list" where
  "compute_sha256 build data =
     (case build of
        Mbedtls_sha256 \<Rightarrow> sha256 data
      | Simplified_hash \<Rightarrow>
          fold simplified_hash_step (zip [0..<length data] data) (replicate 32 0))"

text \<open>
  What the loop of the simulator build leaves in \<^verbatim>\<open>output[j]\<close>, in closed form: the
  exclusive or of the bytes \<^verbatim>\<open>data[i]\<close> with \<open>i mod 32 = j\<close> and of the bytes
  \<^verbatim>\<open>data[i]\<close> with \<open>(i + 1) mod 32 = j\<close>, the latter with their two nibbles exchanged.
\<close>

definition simplified_digest_byte :: "uint8_t list \<Rightarrow> nat \<Rightarrow> uint8_t" where
  "simplified_digest_byte data j =
     fold (\<lambda>i acc. acc XOR (if i mod 32 = j then data ! i else 0)
                      XOR (if (i + 1) mod 32 = j
                           then push_bit 4 (data ! i) OR drop_bit 4 (data ! i) else 0))
       [0..<length data] 0"

text \<open>
  \<^verbatim>\<open>snprintf(output, DEVICE_ID_STRING_SIZE + 1, "%08u", value)\<close>: the decimal digits,
  padded with zeros on the left to eight characters, cut after the eighth.
\<close>

definition printf_08u :: "nat \<Rightarrow> string" where
  "printf_08u v = replicate (8 - length (dec_string v)) (CHR ''0'') @ dec_string v"

text \<open>
  \<^verbatim>\<open>device_id_raw_to_string(raw, raw_size, output)\<close>. The result is the string in
  \<^verbatim>\<open>output\<close> after the call; \<open>None\<close> for an \<^verbatim>\<open>output\<close> that is \<^verbatim>\<open>NULL\<close>.
  The loop over the first four digest bytes shifts a \<^verbatim>\<open>uint32_t\<close>.
\<close>

definition device_id_raw_to_string ::
  "hash_build \<Rightarrow> uint8_t list option \<Rightarrow> nat \<Rightarrow> string option \<Rightarrow> string option" where
  "device_id_raw_to_string build raw raw_size output =
     (case output of
        None \<Rightarrow> None
      | Some _ \<Rightarrow>
          (case raw of
             None \<Rightarrow> Some []
           | Some bytes \<Rightarrow>
               if raw_size = 0 then Some []
               else
                 let hash = compute_sha256 build (take raw_size bytes);
                     value0 = fold (\<lambda>i (v :: uint32_t). push_bit 8 v OR ucast (hash ! i)) [0..<4] 0;
                     value1 = (value0 mod 90000000) + 10000000
                 in Some (take DEVICE_ID_STRING_SIZE (printf_08u (unat value1)))))"

text \<open>
  \<^verbatim>\<open>device_id_validate_format(id)\<close>: \<^verbatim>\<open>strlen\<close> counts up to the first zero character,
  \<^verbatim>\<open>isdigit\<close> accepts \<^verbatim>\<open>'0'\<close> to \<^verbatim>\<open>'9'\<close>.
\<close>

definition c_strlen :: "string \<Rightarrow> nat" where
  "c_strlen s = length (takeWhile (\<lambda>c. of_char c \<noteq> (0 :: nat)) s)"

definition isdigit :: "char \<Rightarrow> bool" where
  "isdigit c = (48 \<le> (of_char c :: nat) \<and> (of_char c :: nat) \<le> 57)"

definition device_id_validate_format :: "string option \<Rightarrow> bool" where
  "device_id_validate_format id_in =
     (case id_in of
        None \<Rightarrow> False
      | Some s \<Rightarrow>
          let len = c_strlen s in
          if len \<noteq> DEVICE_ID_STRING_SIZE then False
          else list_all (\<lambda>i. isdigit (s ! i)) [0..<len])"

text \<open>The number a string of decimal digits denotes, most significant digit first.\<close>

definition decimal_value :: "string \<Rightarrow> nat" where
  "decimal_value s = foldl (\<lambda>a c. 10 * a + (of_char c - 48)) 0 s"

text \<open>The first four bytes of a digest as a big-endian unsigned integer.\<close>

definition be32 :: "uint8_t list \<Rightarrow> nat" where
  "be32 h = unat (h ! 0) * 2 ^ 24 + unat (h ! 1) * 2 ^ 16 + unat (h ! 2) * 2 ^ 8 + unat (h ! 3)"

section \<open>protocol.h: constants, message types and the packet header\<close>

definition PROTOCOL_VERSION :: uint8_t where "PROTOCOL_VERSION = 1"
definition MAX_PACKET_SIZE :: nat where "MAX_PACKET_SIZE = 256"
definition PACKET_HEADER_SIZE :: nat where "PACKET_HEADER_SIZE = 12"

text \<open>\<^verbatim>\<open>PACKET_MAGIC_VALUE\<close> of protocol.c; the \<^verbatim>\<open>PACKET_MAGIC\<close> of the header file is not used.\<close>

definition PACKET_MAGIC_VALUE :: uint16_t where "PACKET_MAGIC_VALUE = 0x5754"

datatype message_type_t =
    MSG_DISCOVER_REQUEST
  | MSG_DISCOVER_RESPONSE
  | MSG_CALL_REQUEST
  | MSG_CALL_ACCEPT
  | MSG_CALL_REJECT
  | MSG_CALL_END
  | MSG_FREQ_ANNOUNCE
  | MSG_FREQ_JOIN_REQUEST
  | MSG_FREQ_JOIN_ACCEPT
  | MSG_FREQ_JOIN_REJECT
  | MSG_FREQ_LEAVE
  | MSG_FREQ_KICK
  | MSG_FREQ_CLOSE
  | MSG_FREQ_INVITE
  | MSG_VOICE_DATA
  | MSG_VOICE_START
  | MSG_VOICE_END
  | MSG_MUTE
  | MSG_UNMUTE
  | MSG_PING
  | MSG_PONG
  | MSG_STATUS_UPDATE
  | MSG_MEMBER_LIST

text \<open>The value of each enumerator, as \<^verbatim>\<open>(uint8_t)msg_type\<close> stores it.\<close>

fun message_code :: "message_type_t \<Rightarrow> uint8_t" where
  "message_code MSG_DISCOVER_REQUEST = 0x01"
| "message_code MSG_DISCOVER_RESPONSE = 0x02"
| "message_code MSG_CALL_REQUEST = 0x10"
| "message_code MSG_CALL_ACCEPT = 0x11"
| "message_code MSG_CALL_REJECT = 0x12"
| "message_code MSG_CALL_END = 0x13"
| "message_code MSG_FREQ_ANNOUNCE = 0x20"
| "message_code MSG_FREQ_JOIN_REQUEST = 0x21"
| "message_code MSG_FREQ_JOIN_ACCEPT = 0x22"
| "message_code MSG_FREQ_JOIN_REJECT = 0x23"
| "message_code MSG_FREQ_LEAVE = 0x24"
| "message_code MSG_FREQ_KICK = 0x25"
| "message_code MSG_FREQ_CLOSE = 0x26"
| "message_code MSG_FREQ_INVITE = 0x27"
| "message_code MSG_VOICE_DATA = 0x30"
| "message_code MSG_VOICE_START = 0x31"
| "message_code MSG_VOICE_END = 0x32"
| "message_code MSG_MUTE = 0x40"
| "message_code MSG_UNMUTE = 0x41"
| "message_code MSG_PING = 0x42"
| "message_code MSG_PONG = 0x43"
| "message_code MSG_STATUS_UPDATE = 0x50"
| "message_code MSG_MEMBER_LIST = 0x51"

text \<open>
  \<^verbatim>\<open>packet_header_t\<close> is a packed struct: two bytes of magic, version, message type,
  \<^verbatim>\<open>DEVICE_ID_LENGTH\<close> bytes of source id, two bytes of payload length, two bytes of
  checksum. Its size is what \<^verbatim>\<open>sizeof(packet_header_t)\<close> denotes in protocol.c.
\<close>

record packet_header_t =
  magic :: uint16_t
  version :: uint8_t
  msg_type :: uint8_t
  src_id :: "uint8_t list"
  payload_len :: uint16_t
  checksum :: uint16_t

definition sizeof_packet_header_t :: nat where
  "sizeof_packet_header_t = 2 + 1 + 1 + DEVICE_ID_LENGTH + 2 + 2"

section \<open>Memory as byte lists\<close>

text \<open>
  A buffer is the list of bytes found at its address. The firmware's targets (ESP32 and
  the host simulator) are little-endian, so a \<^verbatim>\<open>uint16_t\<close> field lies in memory low byte
  first. \<open>write_at\<close> stores bytes at an offset; a store that runs past the end of the
  list lengthens it, so the length of a buffer after a call also tells how far the call
  has written.
\<close>

definition le16 :: "uint16_t \<Rightarrow> uint8_t list" where
  "le16 w = [ucast w, ucast (drop_bit 8 w)]"

definition rd16 :: "uint8_t list \<Rightarrow> nat \<Rightarrow> uint16_t" where
  "rd16 buf off = ucast (buf ! off) OR push_bit 8 (ucast (buf ! (off + 1)))"

definition write_at :: "uint8_t list \<Rightarrow> nat \<Rightarrow> uint8_t list \<Rightarrow> uint8_t list" where
  "write_at buf off bs = take off buf @ bs @ drop (off + length bs) buf"

text \<open>The header as it lies in a buffer, and the header a buffer starts with.\<close>

definition header_bytes :: "packet_header_t \<Rightarrow> uint8_t list" where
  "header_bytes h =
     le16 (magic h) @ [version h, msg_type h] @ src_id h @ le16 (payload_len h) @ le16 (checksum h)"

definition read_header :: "uint8_t list \<Rightarrow> packet_header_t" where
  "read_header buf =
     \<lparr>magic = rd16 buf 0, version = buf ! 2, msg_type = buf ! 3,
      src_id = take DEVICE_ID_LENGTH (drop 4 buf),
      payload_len = rd16 buf (4 + DEVICE_ID_LENGTH),
      checksum = rd16 buf (6 + DEVICE_ID_LENGTH)\<rparr>"

section \<open>protocol.c: CRC, packet building and parsing\<close>

definition crc16_table :: "uint16_t list" where
  "crc16_table =
    [0x0000, 0x1021, 0x2042, 0x3063, 0x4084, 0x50A5, 0x60C6, 0x70E7,
     0x8108, 0x9129, 0xA14A, 0xB16B, 0xC18C, 0xD1AD, 0xE1CE, 0xF1EF,
     0x1231, 0x0210, 0x3273, 0x2252, 0x52B5, 0x4294, 0x72F7, 0x62D6,
     0x9339, 0x8318, 0xB37B, 0xA35A, 0xD3BD, 0xC39C, 0xF3FF, 0xE3DE,
     0x2462, 0x3443, 0x0420, 0x1401, 0x64E6, 0x74C7, 0x44A4, 0x5485,
     0xA56A, 0xB54B, 0x8528, 0x9509, 0xE5EE, 0xF5CF, 0xC5AC, 0xD58D,
     0x3653, 0x2672, 0x1611, 0x0630, 0x76D7, 0x66F6, 0x5695, 0x46B4,
     0xB75B, 0xA77A, 0x9719, 0x8738, 0xF7DF, 0xE7FE, 0xD79D, 0xC7BC,
     0x48C4, 0x58E5, 0x6886, 0x78A7, 0x0840, 0x1861, 0x2802, 0x3823,
     0xC9CC, 0xD9ED, 0xE98E, 0xF9AF, 0x8948, 0x9969, 0xA90A, 0xB92B,
     0x5AF5, 0x4AD4, 0x7AB7, 0x6A96, 0x1A71, 0x0A50, 0x3A33, 0x2A12,
     0xDBFD, 0xCBDC, 0xFBBF, 0xEB9E, 0x9B79, 0x8B58, 0xBB3B, 0xAB1A,
     0x6CA6, 0x7C87, 0x4CE4, 0x5CC5, 0x2C22, 0x3C03, 0x0C60, 0x1C41,
     0xEDAE, 0xFD8F, 0xCDEC, 0xDDCD, 0xAD2A, 0xBD0B, 0x8D68, 0x9D49,
     0x7E97, 0x6EB6, 0x5ED5, 0x4EF4, 0x3E13, 0x2E32, 0x1E51, 0x0E70,
     0xFF9F, 0xEFBE, 0xDFDD, 0xCFFC, 0xBF1B, 0xAF3A, 0x9F59, 0x8F78,
     0x9188, 0x81A9, 0xB1CA, 0xA1EB, 0xD10C, 0xC12D, 0xF14E, 0xE16F,
     0x1080, 0x00A1, 0x30C2, 0x20E3, 0x5004, 0x4025, 0x7046, 0x6067,
     0x83B9, 0x9398, 0xA3FB, 0xB3DA, 0xC33D, 0xD31C, 0xE37F, 0xF35E,
     0x02B1, 0x1290, 0x22F3, 0x32D2, 0x4235, 0x5214, 0x6277, 0x7256,
     0xB5EA, 0xA5CB, 0x95A8, 0x8589, 0xF56E, 0xE54F, 0xD52C, 0xC50D,
     0x34E2, 0x24C3, 0x14A0, 0x0481, 0x7466, 0x6447, 0x5424, 0x4405,
     0xA7DB, 0xB7FA, 0x8799, 0x97B8, 0xE75F, 0xF77E, 0xC71D, 0xD73C,
     0x26D3, 0x36F2, 0x0691, 0x16B0, 0x6657, 0x7676, 0x4615, 0x5634,
     0xD94C, 0xC96D, 0xF90E, 0xE92F, 0x99C8, 0x89E9, 0xB98A, 0xA9AB,
     0x5844, 0x4865, 0x7806, 0x6827, 0x18C0, 0x08E1, 0x3882, 0x28A3,
     0xCB7D, 0xDB5C, 0xEB3F, 0xFB1E, 0x8BF9, 0x9BD8, 0xABBB, 0xBB9A,
     0x4A75, 0x5A54, 0x6A37, 0x7A16, 0x0AF1, 0x1AD0, 0x2AB3, 0x3A92,
     0xFD2E, 0xED0F, 0xDD6C, 0xCD4D, 0xBDAA, 0xAD8B, 0x9DE8, 0x8DC9,
     0x7C26, 0x6C07, 0x5C64, 0x4C45, 0x3CA2, 0x2C83, 0x1CE0, 0x0CC1,
     0xEF1F, 0xFF3E, 0xCF5D, 0xDF7C, 0xAF9B, 0xBFBA, 0x8FD9, 0x9FF8,
     0x6E17, 0x7E36, 0x4E55, 0x5E74, 0x2E93, 0x3EB2, 0x0ED1, 0x1EF0]"

text \<open>
  One round of the loop of \<^verbatim>\<open>protocol_crc16\<close>: the shifted value is cut to 16 bits when
  it is stored back in \<^verbatim>\<open>crc\<close>.
\<close>

definition crc16_step :: "uint16_t \<Rightarrow> uint8_t \<Rightarrow> uint16_t" where
  "crc16_step crc b =
     push_bit 8 crc XOR crc16_table ! unat ((drop_bit 8 crc XOR ucast b) AND 0xFF)"

definition protocol_crc16 :: "uint8_t list \<Rightarrow> uint16_t \<Rightarrow> uint16_t" where
  "protocol_crc16 data len = foldl crc16_step 0xFFFF (take (unat len) data)"

text \<open>
  \<^verbatim>\<open>protocol_build_packet(msg_type, src_id, payload, payload_len, out_buffer)\<close>.
  The first argument of the model is the global \<^verbatim>\<open>g_local_device_id\<close>. Pointers are
  options; the result is the returned length and the output buffer after the call.
  The header fields are stored with a zero checksum, the payload is copied behind the
  header, and the CRC of the first \<^verbatim>\<open>packet_len\<close> bytes replaces the checksum.
\<close>

definition protocol_build_packet ::
  "uint8_t list \<Rightarrow> message_type_t \<Rightarrow> uint8_t list option \<Rightarrow> uint8_t list option \<Rightarrow> uint16_t
     \<Rightarrow> uint8_t list option \<Rightarrow> uint16_t \<times> uint8_t list option" where
  "protocol_build_packet g_local_device_id mt src_id_in payload payload_len_in out_buffer =
     (case out_buffer of
        None \<Rightarrow> (0, None)
      | Some out \<Rightarrow>
          let plen = (if unat payload_len_in > MAX_PACKET_SIZE - PACKET_HEADER_SIZE
                      then of_nat (MAX_PACKET_SIZE - PACKET_HEADER_SIZE) else payload_len_in);
              sid = (case src_id_in of
                       Some s \<Rightarrow> take DEVICE_ID_LENGTH s
                     | None \<Rightarrow>
                         if g_local_device_id ! 0 \<noteq> 0
                         then take DEVICE_ID_LENGTH g_local_device_id
                         else replicate DEVICE_ID_LENGTH 0x30);
              header = \<lparr>magic = PACKET_MAGIC_VALUE, version = PROTOCOL_VERSION,
                        msg_type = message_code mt, src_id = sid, payload_len = plen,
                        checksum = 0\<rparr>;
              out1 = write_at out 0 (header_bytes header);
              out2 = (case payload of
                        Some p \<Rightarrow>
                          if plen > 0
                          then write_at out1 sizeof_packet_header_t (take (unat plen) p)
                          else out1
                      | None \<Rightarrow> out1);
              packet_len = (of_nat (sizeof_packet_header_t + unat plen) :: uint16_t);
              crc = protocol_crc16 out2 packet_len;
              out3 = write_at out2 (6 + DEVICE_ID_LENGTH) (le16 crc)
          in (packet_len, Some out3))"

text \<open>
  \<^verbatim>\<open>protocol_parse_packet(buffer, buffer_len, out_header, out_payload)\<close>. \<open>None\<close> is
  \<^verbatim>\<open>return false\<close>, which leaves both out-parameters untouched; on success the result
  is the header copied to \<^verbatim>\<open>out_header\<close> and the memory \<^verbatim>\<open>*out_payload\<close> points to, which
  begins behind the header. The checksum field is zeroed in place for the computation
  and restored afterwards, so the buffer is the same after the call.
\<close>

definition protocol_parse_packet ::
  "uint8_t list option \<Rightarrow> uint16_t \<Rightarrow> (packet_header_t \<times> uint8_t list) option" where
  "protocol_parse_packet buffer buffer_len =
     (case buffer of
        None \<Rightarrow> None
      | Some buf \<Rightarrow>
          if unat buffer_len < sizeof_packet_header_t then None
          else
            let header = read_header buf in
            if magic header \<noteq> PACKET_MAGIC_VALUE then None
            else if version header \<noteq> PROTOCOL_VERSION then None
            else if unat buffer_len < sizeof_packet_header_t + unat (payload_len header) then None
            else
              let stored_crc = checksum header;
                  zeroed = write_at buf (6 + DEVICE_ID_LENGTH) (le16 0);
                  calc_crc = protocol_crc16 zeroed
                    (of_nat (sizeof_packet_header_t + unat (payload_len header)))
              in if calc_crc \<noteq> stored_crc then None
                 else Some (header, drop sizeof_packet_header_t buf))"

text \<open>The buffer \<^verbatim>\<open>g_tx_buffer\<close> of protocol.c has \<^verbatim>\<open>MAX_PACKET_SIZE\<close> bytes.\<close>

definition g_tx_buffer_size :: nat where
  "g_tx_buffer_size = MAX_PACKET_SIZE"

text \<open>The first twelve bytes of a built packet: magic, version, message type and source id.\<close>

definition hdr12 :: "message_type_t \<Rightarrow> uint8_t list \<Rightarrow> uint8_t list" where
  "hdr12 t sid = le16 PACKET_MAGIC_VALUE @ [PROTOCOL_VERSION, message_code t] @ sid"

section \<open>Sequence gap: results\<close>

lemma sequence_gap_uint:
  "uint (audio_buffer_sequence_gap e r) = (uint r - uint e) mod 2 ^ 16"
proof (cases "e \<le> r")
  case True
  then have "uint e \<le> uint r" by (simp add: word_le_def)
  then show ?thesis using True
    by (simp add: audio_buffer_sequence_gap_def uint_word_ariths)
next
  case False
  have "uint (audio_buffer_sequence_gap e r) = (0xFFFF - uint e + uint r + 1) mod 2 ^ 16"
    using False by (simp only: audio_buffer_sequence_gap_def if_False uint_word_of_int len_of_numeral_defs)
      simp
  also have "0xFFFF - uint e + uint r + 1 = uint r - uint e + 65536"
    by simp
  also have "(uint r - uint e + 65536) mod 2 ^ 16 = (uint r - uint e) mod 2 ^ 16"
    using mod_add_self2 [of "uint r - uint e" 65536] by simp
  finally show ?thesis .
qed

text \<open>
  Claim C7, as the code has it. The gap is the difference of the two sequence numbers
  modulo \<open>2\<^sup>1\<^sup>6\<close>; when \<open>received < expected\<close> it is
  \<open>(0xFFFF - expected) + received + 1\<close>, that is \<open>2\<^sup>1\<^sup>6 - expected + received\<close>
  (one less than the formula of the specification).
\<close>

theorem sequence_gap_mod:
  "uint (audio_buffer_sequence_gap expected received)
     = (uint received - uint expected) mod 2 ^ 16
   \<and> (received < expected \<longrightarrow>
        uint (audio_buffer_sequence_gap expected received)
          = (2 ^ 16 - 1 - uint expected) + uint received + 1)"
proof (intro conjI impI)
  show "uint (audio_buffer_sequence_gap expected received)
     = (uint received - uint expected) mod 2 ^ 16"
    by (rule sequence_gap_uint)
next
  assume lt: "received < expected"
  then have a: "uint received < uint expected" by (simp add: word_less_def)
  have b: "uint expected < 65536" using uint_bounded [of expected] by simp
  have c: "0 \<le> uint received" by simp
  have "(uint received - uint expected) mod 65536
          = (uint received - uint expected + 65536) mod 65536"
    by (rule mod_add_self2 [symmetric])
  also have "\<dots> = uint received - uint expected + 65536"
    using a b c by (intro mod_pos_pos_trivial) linarith+
  finally have "(uint received - uint expected) mod 2 ^ 16
          = uint received - uint expected + 2 ^ 16"
    by simp
  then show "uint (audio_buffer_sequence_gap expected received)
          = (2 ^ 16 - 1 - uint expected) + uint received + 1"
    by (simp add: sequence_gap_uint)
qed

theorem sequence_gap_mod_witness:
  "(3 :: uint16_t) < 65534 \<and> uint (audio_buffer_sequence_gap 65534 3) = 5"
  using sequence_gap_mod [of 65534 3] by simp

text \<open>
  Claim C7 as the specification words it fails: with \<open>expected = 1\<close> and
  \<open>received = 0\<close> the code returns 65535, while \<open>(2\<^sup>1\<^sup>6 - expected) + received + 1\<close>
  is 65536 (0 modulo \<open>2\<^sup>1\<^sup>6\<close>).
\<close>

theorem sequence_gap_spec_formula_counterexample:
  "(0 :: uint16_t) < 1
   \<and> uint (audio_buffer_sequence_gap 1 0) = 65535
   \<and> uint (audio_buffer_sequence_gap 1 0) \<noteq> (2 ^ 16 - uint (1 :: uint16_t)) + uint (0 :: uint16_t) + 1
   \<and> uint (audio_buffer_sequence_gap 1 0)
        \<noteq> ((2 ^ 16 - uint (1 :: uint16_t)) + uint (0 :: uint16_t) + 1) mod 2 ^ 16"
  by (simp add: audio_buffer_sequence_gap_def)

section \<open>Ring buffer: results\<close>

lemma unat_next_idx: "unat (next_idx i) = (unat i + 1) mod 32"
proof -
  have "(unat i + 1) mod 32 < 32" by simp
  then have "(unat i + 1) mod 32 < 2 ^ LENGTH(8)" by simp
  then show ?thesis
    unfolding next_idx_def AUDIO_BUFFER_FRAMES_def by (simp add: unat_of_nat)
qed

lemma next_idx_lt: "unat (next_idx i) < AUDIO_BUFFER_FRAMES"
  by (simp add: unat_next_idx AUDIO_BUFFER_FRAMES_def)

lemma ring_inv_init: "ring_inv audio_buffer_init"
  by (simp add: ring_inv_def audio_buffer_init_def AUDIO_BUFFER_FRAMES_def)

lemma ring_inv_write: "ring_inv b \<Longrightarrow> ring_inv (snd (audio_buffer_write b s l t now))"
  by (auto simp: ring_inv_def audio_buffer_write_def Let_def next_idx_lt split: option.splits)

lemma ring_inv_write_frame: "ring_inv b \<Longrightarrow> ring_inv (snd (audio_buffer_write_frame b f))"
  by (auto simp: ring_inv_def audio_buffer_write_frame_def Let_def next_idx_lt split: option.splits)

lemma ring_inv_read: "ring_inv b \<Longrightarrow> ring_inv (snd (snd (audio_buffer_read b f)))"
  by (auto simp: ring_inv_def audio_buffer_read_def Let_def next_idx_lt split: option.splits)

lemma ring_inv_skip: "ring_inv b \<Longrightarrow> ring_inv (snd (audio_buffer_skip b))"
  by (auto simp: ring_inv_def audio_buffer_skip_def Let_def next_idx_lt split: option.splits)

lemma ring_inv_step: "ring_inv b \<Longrightarrow> ring_inv (ring_step b op)"
  by (cases op) (simp_all add: ring_inv_write ring_inv_write_frame ring_inv_read ring_inv_skip)

lemma ring_inv_foldl: "ring_inv b \<Longrightarrow> ring_inv (foldl ring_step b ops)"
  by (induction ops arbitrary: b) (simp_all add: ring_inv_step)

lemma ring_inv_run: "ring_inv (ring_run ops)"
  unfolding ring_run_def by (rule ring_inv_foldl [OF ring_inv_init])

lemma count_eq:
  assumes "ring_inv b"
  shows "unat (audio_buffer_count b) = (unat (write_idx b) + 32 - unat (read_idx b)) mod 32"
proof -
  define w r where "w = unat (write_idx b)" and "r = unat (read_idx b)"
  have w: "w < 32" and r: "r < 32"
    using assms by (simp_all add: ring_inv_def AUDIO_BUFFER_FRAMES_def w_def r_def)
  have iw: "uint (write_idx b) = int w" and ir: "uint (read_idx b) = int r"
    by (simp_all add: w_def r_def)
  show ?thesis
  proof (cases "read_idx b \<le> write_idx b")
    case True
    then have le: "r \<le> w" by (simp add: word_le_nat_alt w_def r_def)
    have "uint (audio_buffer_count b) = (int w - int r) mod 2 ^ 8"
      using True by (simp only: audio_buffer_count_def if_True uint_word_of_int iw ir) simp
    also have "\<dots> = int w - int r"
      using le w by (intro mod_pos_pos_trivial) simp_all
    also have "\<dots> = int (w - r)"
      using le by (simp add: of_nat_diff)
    finally have "unat (audio_buffer_count b) = w - r"
      by (simp only: unat_eq_nat_uint nat_int)
    also have "\<dots> = (w + 32 - r) mod 32"
      using le w r by (simp add: mod_if)
    finally show ?thesis by (simp only: w_def r_def)
  next
    case False
    then have lt: "w < r" by (simp add: word_le_nat_alt w_def r_def)
    have "uint (audio_buffer_count b) = (int AUDIO_BUFFER_FRAMES - int r + int w) mod 2 ^ 8"
      using False by (simp only: audio_buffer_count_def if_False uint_word_of_int iw ir) simp
    also have "\<dots> = int AUDIO_BUFFER_FRAMES - int r + int w"
      using lt r by (intro mod_pos_pos_trivial) (simp_all add: AUDIO_BUFFER_FRAMES_def)
    also have "\<dots> = int (32 - r + w)"
      using r by (simp add: of_nat_diff AUDIO_BUFFER_FRAMES_def)
    finally have "unat (audio_buffer_count b) = 32 - r + w"
      by (simp only: unat_eq_nat_uint nat_int)
    also have "\<dots> = (w + 32 - r) mod 32"
      using lt w r by simp
    finally show ?thesis by (simp only: w_def r_def)
  qed
qed


lemma is_full_iff:
  "audio_buffer_is_full b \<longleftrightarrow> (unat (write_idx b) + 1) mod 32 = unat (read_idx b)"
  unfolding audio_buffer_is_full_def Let_def
  by (metis unat_next_idx word_unat_eq_iff)

lemma full_count:
  assumes "w < (32::nat)" "r < 32"
  shows "(w + 1) mod 32 = r \<longleftrightarrow> (w + 32 - r) mod 32 = 31"
  using assms by (auto simp: mod_if split: if_splits)

lemma empty_count:
  assumes "w < (32::nat)" "r < 32"
  shows "w = r \<longleftrightarrow> (w + 32 - r) mod 32 = 0"
  using assms by (auto simp: mod_if split: if_splits)

lemma write_full:
  assumes "audio_buffer_is_full b"
  shows "fst (audio_buffer_write b s l t now) = False"
    and "frames (snd (audio_buffer_write b s l t now)) = frames b"
    and "write_idx (snd (audio_buffer_write b s l t now)) = write_idx b"
    and "read_idx (snd (audio_buffer_write b s l t now)) = read_idx b"
  using assms
  by (simp_all add: audio_buffer_is_full_def audio_buffer_write_def Let_def split: option.splits)

lemma write_frame_full:
  assumes "audio_buffer_is_full b"
  shows "fst (audio_buffer_write_frame b f) = False"
    and "frames (snd (audio_buffer_write_frame b f)) = frames b"
    and "write_idx (snd (audio_buffer_write_frame b f)) = write_idx b"
    and "read_idx (snd (audio_buffer_write_frame b f)) = read_idx b"
  using assms
  by (simp_all add: audio_buffer_is_full_def audio_buffer_write_frame_def Let_def split: option.splits)

lemma read_empty:
  assumes "audio_buffer_is_empty b"
  shows "fst (audio_buffer_read b f) = False"
    and "fst (snd (audio_buffer_read b f)) = f"
    and "frames (snd (snd (audio_buffer_read b f))) = frames b"
    and "write_idx (snd (snd (audio_buffer_read b f))) = write_idx b"
    and "read_idx (snd (snd (audio_buffer_read b f))) = read_idx b"
  using assms
  by (simp_all add: audio_buffer_is_empty_def audio_buffer_read_def split: option.splits)

lemma peek_skip_empty:
  assumes "audio_buffer_is_empty b"
  shows "audio_buffer_peek b f = (False, f)"
    and "audio_buffer_skip b = (False, b)"
  using assms
  by (simp_all add: audio_buffer_is_empty_def audio_buffer_peek_def audio_buffer_skip_def
      split: option.splits)

lemma fill_frames:
  "n < 32 \<Longrightarrow>
     write_idx (foldl ring_step audio_buffer_init (replicate n (Write_frame (Some f)))) = of_nat n
   \<and> read_idx (foldl ring_step audio_buffer_init (replicate n (Write_frame (Some f)))) = 0"
proof (induction n)
  case 0
  show ?case by (simp add: audio_buffer_init_def)
next
  case (Suc n)
  let ?b = "foldl ring_step audio_buffer_init (replicate n (Write_frame (Some f)))"
  from Suc have w: "write_idx ?b = of_nat n" and r: "read_idx ?b = 0" by simp_all
  have u: "unat (of_nat n :: uint8_t) = n" using Suc.prems by (simp add: unat_of_nat)
  have nx: "unat (next_idx (of_nat n)) = Suc n"
    using Suc.prems by (simp add: unat_next_idx u)
  then have ne: "next_idx (of_nat n) \<noteq> 0" by (metis Zero_not_Suc unat_0)
  have nx': "next_idx (of_nat n) = of_nat (Suc n)"
    using nx by (metis of_nat_unat ucast_id)
  have "replicate (Suc n) (Write_frame (Some f)) = replicate n (Write_frame (Some f)) @ [Write_frame (Some f)]"
    by (simp add: replicate_append_same)
  then show ?case
    using w r ne nx' by (simp add: audio_buffer_write_frame_def Let_def)
qed

text \<open>
  Claim C6. After any sequence of \<^verbatim>\<open>write\<close>, \<^verbatim>\<open>write_frame\<close>, \<^verbatim>\<open>read\<close>,
  \<^verbatim>\<open>peek\<close> and \<^verbatim>\<open>skip\<close> calls on an initialised buffer: both indices stay below
  \<open>N = 32\<close>; the count is \<open>(write - read) mod N\<close> and lies in \<open>[0, N - 1]\<close>; the buffer is
  empty iff the indices are equal (iff the count is 0) and full iff
  \<open>(write + 1) mod N = read\<close> (iff the count is \<open>N - 1\<close>); a \<^verbatim>\<open>write\<close> or
  \<^verbatim>\<open>write_frame\<close> on a full buffer returns false and leaves the frame array and both
  indices as they were; a \<^verbatim>\<open>read\<close> or \<^verbatim>\<open>peek\<close> on an empty buffer returns false and
  leaves the caller's frame as it was, and \<^verbatim>\<open>skip\<close> returns false and changes nothing.
\<close>

theorem ring_buffer_invariants:
  "unat (write_idx (ring_run ops)) < AUDIO_BUFFER_FRAMES
   \<and> unat (read_idx (ring_run ops)) < AUDIO_BUFFER_FRAMES
   \<and> length (frames (ring_run ops)) = AUDIO_BUFFER_FRAMES
   \<and> unat (audio_buffer_count (ring_run ops)) \<le> AUDIO_BUFFER_FRAMES - 1
   \<and> unat (audio_buffer_count (ring_run ops))
        = (unat (write_idx (ring_run ops)) + AUDIO_BUFFER_FRAMES - unat (read_idx (ring_run ops)))
            mod AUDIO_BUFFER_FRAMES
   \<and> (audio_buffer_is_empty (ring_run ops)
        \<longleftrightarrow> write_idx (ring_run ops) = read_idx (ring_run ops))
   \<and> (audio_buffer_is_empty (ring_run ops) \<longleftrightarrow> audio_buffer_count (ring_run ops) = 0)
   \<and> (audio_buffer_is_full (ring_run ops)
        \<longleftrightarrow> (unat (write_idx (ring_run ops)) + 1) mod AUDIO_BUFFER_FRAMES
              = unat (read_idx (ring_run ops)))
   \<and> (audio_buffer_is_full (ring_run ops)
        \<longleftrightarrow> unat (audio_buffer_count (ring_run ops)) = AUDIO_BUFFER_FRAMES - 1)
   \<and> (audio_buffer_is_full (ring_run ops) \<longrightarrow>
        (\<forall>s l t now.
           fst (audio_buffer_write (ring_run ops) s l t now) = False
         \<and> frames (snd (audio_buffer_write (ring_run ops) s l t now)) = frames (ring_run ops)
         \<and> write_idx (snd (audio_buffer_write (ring_run ops) s l t now)) = write_idx (ring_run ops)
         \<and> read_idx (snd (audio_buffer_write (ring_run ops) s l t now)) = read_idx (ring_run ops))
      \<and> (\<forall>f.
           fst (audio_buffer_write_frame (ring_run ops) f) = False
         \<and> frames (snd (audio_buffer_write_frame (ring_run ops) f)) = frames (ring_run ops)
         \<and> write_idx (snd (audio_buffer_write_frame (ring_run ops) f)) = write_idx (ring_run ops)
         \<and> read_idx (snd (audio_buffer_write_frame (ring_run ops) f)) = read_idx (ring_run ops)))
   \<and> (audio_buffer_is_empty (ring_run ops) \<longrightarrow>
        (\<forall>f.
           fst (audio_buffer_read (ring_run ops) f) = False
         \<and> fst (snd (audio_buffer_read (ring_run ops) f)) = f
         \<and> frames (snd (snd (audio_buffer_read (ring_run ops) f))) = frames (ring_run ops)
         \<and> write_idx (snd (snd (audio_buffer_read (ring_run ops) f))) = write_idx (ring_run ops)
         \<and> read_idx (snd (snd (audio_buffer_read (ring_run ops) f))) = read_idx (ring_run ops)
         \<and> audio_buffer_peek (ring_run ops) f = (False, f))
      \<and> audio_buffer_skip (ring_run ops) = (False, ring_run ops))"
proof -
  define b where "b = ring_run ops"
  have inv: "ring_inv b" unfolding b_def by (rule ring_inv_run)
  then have w: "unat (write_idx b) < 32" and r: "unat (read_idx b) < 32"
    and len: "length (frames b) = 32"
    by (simp_all add: ring_inv_def AUDIO_BUFFER_FRAMES_def)
  have cnt: "unat (audio_buffer_count b) = (unat (write_idx b) + 32 - unat (read_idx b)) mod 32"
    by (rule count_eq [OF inv])
  have cnt_le: "unat (audio_buffer_count b) \<le> 31"
    unfolding cnt using mod_less_divisor [of 32 "unat (write_idx b) + 32 - unat (read_idx b)"]
    by linarith
  have e1: "audio_buffer_is_empty b \<longleftrightarrow> write_idx b = read_idx b"
    by (simp add: audio_buffer_is_empty_def)
  have e2: "audio_buffer_is_empty b \<longleftrightarrow> audio_buffer_count b = 0"
  proof -
    have "audio_buffer_count b = 0 \<longleftrightarrow> unat (audio_buffer_count b) = 0"
      by (simp add: unat_eq_0)
    also have "\<dots> \<longleftrightarrow> unat (write_idx b) = unat (read_idx b)"
      unfolding cnt using empty_count [OF w r] by simp
    also have "\<dots> \<longleftrightarrow> write_idx b = read_idx b"
      by (simp add: word_unat_eq_iff)
    finally show ?thesis using e1 by simp
  qed
  have f1: "audio_buffer_is_full b \<longleftrightarrow> (unat (write_idx b) + 1) mod 32 = unat (read_idx b)"
    by (rule is_full_iff)
  have f2: "audio_buffer_is_full b \<longleftrightarrow> unat (audio_buffer_count b) = 31"
    unfolding f1 cnt by (rule full_count [OF w r])
  show ?thesis
    unfolding b_def [symmetric] AUDIO_BUFFER_FRAMES_def
    using w r len cnt cnt_le e1 e2 f1 f2
    by (simp add: write_full write_frame_full read_empty peek_skip_empty)
qed

theorem ring_buffer_invariants_witness:
  "audio_buffer_is_full (ring_run (replicate 31 (Write_frame (Some zero_frame))))
   \<and> unat (audio_buffer_count (ring_run (replicate 31 (Write_frame (Some zero_frame))))) = 31
   \<and> fst (audio_buffer_write (ring_run (replicate 31 (Write_frame (Some zero_frame)))) (Some [3]) 1 6 0) = False
   \<and> write_idx (snd (audio_buffer_write (ring_run (replicate 31 (Write_frame (Some zero_frame)))) (Some [3]) 1 6 0)) = 31
   \<and> audio_buffer_is_empty (ring_run [])
   \<and> audio_buffer_read (ring_run []) (Some zero_frame)
        = (False, Some zero_frame, audio_buffer_init\<lparr>stats := zero_stats\<lparr>buffer_underruns := 1\<rparr>\<rparr>)"
proof -
  let ?ops = "replicate 31 (Write_frame (Some zero_frame))"
  have w31: "write_idx (ring_run ?ops) = 31" and r0: "read_idx (ring_run ?ops) = 0"
    using fill_frames [of 31 zero_frame] by (simp_all add: ring_run_def)
  have full: "audio_buffer_is_full (ring_run ?ops)"
    by (simp add: is_full_iff w31 r0)
  have empty: "audio_buffer_is_empty (ring_run [])"
    by (simp add: ring_run_def audio_buffer_is_empty_def audio_buffer_init_def)
  have rd: "audio_buffer_read (ring_run []) (Some zero_frame)
        = (False, Some zero_frame, audio_buffer_init\<lparr>stats := zero_stats\<lparr>buffer_underruns := 1\<rparr>\<rparr>)"
    by (simp add: ring_run_def audio_buffer_read_def audio_buffer_init_def zero_stats_def)
  show ?thesis
    using ring_buffer_invariants [of ?ops] ring_buffer_invariants [of "[]"] full w31 empty rd
    by (simp add: AUDIO_BUFFER_FRAMES_def)
qed

section \<open>Dial manager: results\<close>

lemma nth_upd: "xs[i := x] ! j = (if i = j \<and> i < length xs then x else xs ! j)"
  by (cases "i < length xs") (simp_all add: nth_list_update list_update_beyond)

lemma length_fold_set_audio [simp]: "length (fold (set_audio_flag p) is ss) = length ss"
  by (induction "is" arbitrary: ss) (simp_all add: set_audio_flag_def)

lemma length_fold_load [simp]: "length (fold (load_slot nvs) is ss) = length ss"
  by (induction "is" arbitrary: ss) (simp_all add: load_slot_def split: option.splits)

lemma fold_set_audio_nth:
  "n \<le> length ss \<Longrightarrow> j < length ss \<Longrightarrow>
     is_active_audio (fold (set_audio_flag p) [0..<n] ss ! j)
       = (if j < n then j = p else is_active_audio (ss ! j))"
proof (induction n)
  case 0
  then show ?case by simp
next
  case (Suc n)
  define ss' where "ss' = fold (set_audio_flag p) [0..<n] ss"
  have IH: "is_active_audio (ss' ! j) = (if j < n then j = p else is_active_audio (ss ! j))"
    using Suc by (simp add: ss'_def)
  have n: "n < length ss'" using Suc.prems by (simp add: ss'_def)
  have "fold (set_audio_flag p) [0..<Suc n] ss = ss'[n := (ss' ! n)\<lparr>is_active_audio := (n = p)\<rparr>]"
    by (simp add: ss'_def set_audio_flag_def)
  then show ?case
    using IH n by (auto simp: nth_upd less_Suc_eq)
qed

lemma fold_load_audio_nth:
  "j < length ss \<Longrightarrow>
     is_active_audio (fold (load_slot nvs) is ss ! j) = is_active_audio (ss ! j)"
proof (induction "is" arbitrary: ss)
  case Nil
  then show ?case by simp
next
  case (Cons i "is")
  have "length (load_slot nvs i ss) = length ss"
    by (simp add: load_slot_def split: option.splits)
  moreover have "is_active_audio (load_slot nvs i ss ! j) = is_active_audio (ss ! j)"
    using Cons.prems by (simp add: load_slot_def nth_upd split: option.splits)
  ultimately show ?case using Cons by simp
qed

lemma amo_iff:
  "at_most_one_active_audio dm \<longleftrightarrow>
     (\<forall>i<DIAL_POSITIONS. \<forall>j<DIAL_POSITIONS.
        is_active_audio (slots dm ! i) \<and> is_active_audio (slots dm ! j) \<longrightarrow> i = j)"
proof -
  let ?P = "\<lambda>i. is_active_audio (slots dm ! i)"
  let ?xs = "filter ?P [0..<DIAL_POSITIONS]"
  have d: "distinct ?xs" by simp
  have "length ?xs = card (set ?xs)" using distinct_card [OF d] by simp
  then have "at_most_one_active_audio dm \<longleftrightarrow> card (set ?xs) \<le> Suc 0"
    by (simp add: at_most_one_active_audio_def audio_active_slots_def)
  also have "\<dots> \<longleftrightarrow> (\<forall>a\<in>set ?xs. \<forall>b\<in>set ?xs. a = b)"
    by (rule card_le_Suc0_iff_eq) simp
  also have "\<dots> \<longleftrightarrow> (\<forall>i<DIAL_POSITIONS. \<forall>j<DIAL_POSITIONS. ?P i \<and> ?P j \<longrightarrow> i = j)"
    by auto
  finally show ?thesis .
qed

lemma amo_audio_le: "at_most_one_active_audio dm \<Longrightarrow> audio_le dm' dm \<Longrightarrow> at_most_one_active_audio dm'"
  unfolding amo_iff audio_le_def by blast

lemma audio_le_refl [simp]: "audio_le dm dm"
  by (simp add: audio_le_def)

lemma audio_le_trans: "audio_le a b \<Longrightarrow> audio_le b c \<Longrightarrow> audio_le a c"
  by (simp add: audio_le_def)

lemma destroy_wf [simp]: "length (slots (destroy_connection_thread dm p)) = length (slots dm)"
  by (simp add: destroy_connection_thread_def Let_def)

lemma destroy_audio_le: "audio_le (destroy_connection_thread dm p) dm"
  by (auto simp: destroy_connection_thread_def Let_def audio_le_def nth_upd)

lemma create_wf [simp]: "length (slots (snd (create_connection_thread pf dm p))) = length (slots dm)"
  by (simp add: create_connection_thread_def Let_def split: platform.splits option.splits)

lemma create_audio_le: "audio_le (snd (create_connection_thread pf dm p)) dm"
  by (auto simp: create_connection_thread_def Let_def audio_le_def nth_upd
      split: platform.splits option.splits)

lemma connect_wf [simp]: "length (slots (snd (dial_manager_connect pf dm p))) = length (slots dm)"
  by (simp add: dial_manager_connect_def Let_def)

lemma connect_audio_le: "audio_le (snd (dial_manager_connect pf dm p)) dm"
  by (simp add: dial_manager_connect_def Let_def create_audio_le)

lemma disconnect_wf [simp]: "length (slots (snd (dial_manager_disconnect dm p))) = length (slots dm)"
  by (simp add: dial_manager_disconnect_def Let_def)

lemma disconnect_audio_le: "audio_le (snd (dial_manager_disconnect dm p)) dm"
proof -
  have "audio_le (destroy_connection_thread dm p) dm" by (rule destroy_audio_le)
  then show ?thesis
    by (auto simp: dial_manager_disconnect_def Let_def audio_le_def nth_upd)
qed

lemma disconnect_fold_wf [simp]:
  "length (slots (fold (\<lambda>i d. snd (dial_manager_disconnect d (of_nat i))) is dm)) = length (slots dm)"
  by (induction "is" arbitrary: dm) simp_all

lemma disconnect_fold_audio_le:
  "audio_le (fold (\<lambda>i d. snd (dial_manager_disconnect d (of_nat i))) is dm) dm"
proof (induction "is" arbitrary: dm)
  case Nil
  show ?case by simp
next
  case (Cons i "is")
  show ?case
    using Cons [of "snd (dial_manager_disconnect dm (of_nat i))"] disconnect_audio_le [of dm "of_nat i"]
    by (auto intro: audio_le_trans)
qed

lemma save_wf [simp]: "length (slots (snd (dial_manager_save_slot dm p ct c n))) = length (slots dm)"
  by (simp add: dial_manager_save_slot_def Let_def split: option.splits)

lemma save_audio_le: "audio_le (snd (dial_manager_save_slot dm p ct c n)) dm"
  using destroy_audio_le [of dm p]
  by (auto simp: dial_manager_save_slot_def Let_def audio_le_def nth_upd split: option.splits)

lemma clear_wf [simp]: "length (slots (snd (dial_manager_clear_slot dm p))) = length (slots dm)"
  by (simp add: dial_manager_clear_slot_def Let_def)

lemma clear_audio_le: "audio_le (snd (dial_manager_clear_slot dm p)) dm"
  using destroy_audio_le [of dm p]
  by (auto simp: dial_manager_clear_slot_def Let_def audio_le_def nth_upd zero_slot_def)

lemma muted_wf [simp]: "length (slots (dial_manager_set_muted dm p m)) = length (slots dm)"
  by (simp add: dial_manager_set_muted_def)

lemma muted_audio_le: "audio_le (dial_manager_set_muted dm p m) dm"
  by (auto simp: dial_manager_set_muted_def audio_le_def nth_upd)

lemma set_audio_wf [simp]: "length (slots (snd (dial_manager_set_active_audio dm p))) = length (slots dm)"
  by (simp add: dial_manager_set_active_audio_def)

lemma set_audio_flags:
  assumes "dial_wf dm" "unat p < DIAL_POSITIONS" "i < DIAL_POSITIONS"
  shows "is_active_audio (slots (snd (dial_manager_set_active_audio dm p)) ! i) = (i = unat p)"
  using assms fold_set_audio_nth [of DIAL_POSITIONS "slots dm" i "unat p"]
  by (simp add: dial_manager_set_active_audio_def dial_wf_def)

lemma set_audio_amo:
  assumes "dial_wf dm" "at_most_one_active_audio dm"
  shows "at_most_one_active_audio (snd (dial_manager_set_active_audio dm p))"
proof (cases "unat p < DIAL_POSITIONS")
  case True
  show ?thesis unfolding amo_iff using set_audio_flags [OF assms(1) True] by simp
next
  case False
  then show ?thesis using assms by (simp add: dial_manager_set_active_audio_def)
qed

lemma set_position_wf [simp]: "length (slots (snd (dial_manager_set_position dm p))) = length (slots dm)"
  by (simp add: dial_manager_set_position_def Let_def)

lemma set_position_amo:
  assumes "dial_wf dm" "at_most_one_active_audio dm"
  shows "at_most_one_active_audio (snd (dial_manager_set_position dm p))"
proof -
  let ?dm1 = "dm\<lparr>current_position := p\<rparr>"
  have wf1: "dial_wf ?dm1" using assms(1) by (simp add: dial_wf_def)
  have amo1: "at_most_one_active_audio ?dm1"
    using assms(2) by (simp add: at_most_one_active_audio_def audio_active_slots_def)
  show ?thesis
    using set_audio_amo [OF wf1 amo1, of p] amo1 assms(2)
    by (simp add: dial_manager_set_position_def Let_def)
qed

lemma rotate_wf [simp]: "length (slots (snd (dial_manager_rotate dm d))) = length (slots dm)"
  by (simp add: dial_manager_rotate_def Let_def)

lemma rotate_amo:
  assumes "dial_wf dm" "at_most_one_active_audio dm"
  shows "at_most_one_active_audio (snd (dial_manager_rotate dm d))"
  using set_position_amo [OF assms] by (simp add: dial_manager_rotate_def Let_def)

lemma task_connected_wf [simp]:
  "length (slots (dial_connection_task_connected dm p tick)) = length (slots dm)"
  by (simp add: dial_connection_task_connected_def)

lemma task_connected_audio_le: "audio_le (dial_connection_task_connected dm p tick) dm"
  by (auto simp: dial_connection_task_connected_def audio_le_def nth_upd)

lemma task_exit_wf [simp]:
  "length (slots (dial_connection_task_exit dm p)) = length (slots dm)"
  by (simp add: dial_connection_task_exit_def Let_def)

lemma task_exit_audio_le: "audio_le (dial_connection_task_exit dm p) dm"
  by (auto simp: dial_connection_task_exit_def Let_def audio_le_def nth_upd)

lemma step_wf: "dial_wf dm \<Longrightarrow> dial_wf (dial_step dm op)"
  by (cases op) (simp_all add: dial_wf_def dial_manager_disconnect_all_def)

lemma step_amo:
  assumes "dial_wf dm" "at_most_one_active_audio dm"
  shows "at_most_one_active_audio (dial_step dm op)"
proof (cases op)
  case (Set_position p) then show ?thesis using set_position_amo [OF assms] by simp
next
  case (Rotate d) then show ?thesis using rotate_amo [OF assms] by simp
next
  case (Save_slot p ct c n) then show ?thesis using amo_audio_le [OF assms(2) save_audio_le] by simp
next
  case (Clear_slot p) then show ?thesis using amo_audio_le [OF assms(2) clear_audio_le] by simp
next
  case (Connect pf p) then show ?thesis using amo_audio_le [OF assms(2) connect_audio_le] by simp
next
  case (Disconnect p) then show ?thesis using amo_audio_le [OF assms(2) disconnect_audio_le] by simp
next
  case Disconnect_all then show ?thesis
    using amo_audio_le [OF assms(2) disconnect_fold_audio_le] by (simp add: dial_manager_disconnect_all_def)
next
  case (Set_active_audio p) then show ?thesis using set_audio_amo [OF assms] by simp
next
  case (Set_muted p m) then show ?thesis using amo_audio_le [OF assms(2) muted_audio_le] by simp
next
  case (Task_connected p tick) then show ?thesis
    using amo_audio_le [OF assms(2) task_connected_audio_le] assms(2) by simp
next
  case (Task_exit p) then show ?thesis
    using amo_audio_le [OF assms(2) task_exit_audio_le] assms(2) by simp
qed

lemma init_wf: "dial_wf (dial_manager_init nvs)"
  by (simp add: dial_wf_def dial_manager_init_def dial_manager_load_from_nvs_def)

lemma init_no_audio: "i < DIAL_POSITIONS \<Longrightarrow> \<not> is_active_audio (slots (dial_manager_init nvs) ! i)"
  by (simp add: dial_manager_init_def dial_manager_load_from_nvs_def fold_load_audio_nth zero_slot_def)

lemma init_amo: "at_most_one_active_audio (dial_manager_init nvs)"
  unfolding amo_iff using init_no_audio by blast

lemma foldl_wf_amo:
  "dial_wf dm \<Longrightarrow> at_most_one_active_audio dm \<Longrightarrow>
     dial_wf (foldl dial_step dm ops) \<and> at_most_one_active_audio (foldl dial_step dm ops)"
  by (induction ops arbitrary: dm) (simp_all add: step_wf step_amo)

lemma run_wf_amo: "dial_wf (dial_run nvs ops) \<and> at_most_one_active_audio (dial_run nvs ops)"
  unfolding dial_run_def by (rule foldl_wf_amo [OF init_wf init_amo])

lemma filter_eq_singleton: "p < n \<Longrightarrow> filter (\<lambda>j. j = p) [0..<n] = [p]"
proof (induction n)
  case 0
  then show ?case by simp
next
  case (Suc n)
  show ?case
  proof (cases "p < n")
    case True
    with Suc.IH show ?thesis by simp
  next
    case False
    with Suc.prems have "p = n" by simp
    moreover have "filter (\<lambda>j. j = n) [0..<n] = []" by (simp add: filter_empty_conv)
    ultimately show ?thesis by simp
  qed
qed

lemma set_audio_active_slots:
  assumes "dial_wf dm" "unat p < DIAL_POSITIONS"
  shows "audio_active_slots (snd (dial_manager_set_active_audio dm p)) = [unat p]"
proof -
  have "filter (\<lambda>i. is_active_audio (slots (snd (dial_manager_set_active_audio dm p)) ! i)) [0..<DIAL_POSITIONS]
          = filter (\<lambda>j. j = unat p) [0..<DIAL_POSITIONS]"
    by (rule filter_cong) (simp_all add: set_audio_flags [OF assms])
  then show ?thesis
    by (simp add: audio_active_slots_def filter_eq_singleton [OF assms(2)])
qed

lemma unat_dec_le: "unat ((a :: uint8_t) - 1) \<le> unat a" if "0 < a"
proof -
  have "1 \<le> a" using that by (simp add: word_le_nat_alt word_less_nat_alt)
  then have "unat (a - 1) = unat a - unat (1 :: uint8_t)" by (rule unat_sub)
  then show ?thesis by simp
qed

lemma destroy_active_le:
  "unat (active_threads (destroy_connection_thread dm p)) \<le> unat (active_threads dm)"
  by (simp add: destroy_connection_thread_def Let_def unat_dec_le)

lemma unat_inc: "unat (a :: uint8_t) < 15 \<Longrightarrow> unat (a + 1) = unat a + 1"
  by (simp add: unat_word_ariths)

lemma create_active_le:
  "unat (active_threads dm) < MAX_DIAL_THREADS \<Longrightarrow>
     unat (active_threads (snd (create_connection_thread pf dm p))) \<le> MAX_DIAL_THREADS"
  by (simp add: create_connection_thread_def Let_def MAX_DIAL_THREADS_def unat_inc
      split: platform.splits option.splits)

lemma connect_active_le:
  "unat (active_threads dm) \<le> MAX_DIAL_THREADS \<Longrightarrow>
     unat (active_threads (snd (dial_manager_connect pf dm p))) \<le> MAX_DIAL_THREADS"
  using create_active_le [of dm pf p]
  by (simp add: dial_manager_connect_def Let_def)

lemma disconnect_active_le:
  "unat (active_threads (snd (dial_manager_disconnect dm p))) \<le> unat (active_threads dm)"
  using destroy_active_le [of dm p] by (simp add: dial_manager_disconnect_def Let_def)

lemma disconnect_fold_active_le:
  "unat (active_threads (fold (\<lambda>i d. snd (dial_manager_disconnect d (of_nat i))) is dm))
     \<le> unat (active_threads dm)"
proof (induction "is" arbitrary: dm)
  case Nil
  show ?case by simp
next
  case (Cons i "is")
  show ?case
    using Cons [of "snd (dial_manager_disconnect dm (of_nat i))"] disconnect_active_le [of dm "of_nat i"]
    by simp
qed

lemma save_active_le:
  "unat (active_threads (snd (dial_manager_save_slot dm p ct c n))) \<le> unat (active_threads dm)"
  using destroy_active_le [of dm p]
  by (simp add: dial_manager_save_slot_def Let_def split: option.splits)

lemma clear_active_le:
  "unat (active_threads (snd (dial_manager_clear_slot dm p))) \<le> unat (active_threads dm)"
  using destroy_active_le [of dm p] by (simp add: dial_manager_clear_slot_def Let_def)

lemma set_audio_active [simp]:
  "active_threads (snd (dial_manager_set_active_audio dm p)) = active_threads dm"
  by (simp add: dial_manager_set_active_audio_def)

lemma set_position_active [simp]:
  "active_threads (snd (dial_manager_set_position dm p)) = active_threads dm"
  by (simp add: dial_manager_set_position_def Let_def)

lemma rotate_active [simp]:
  "active_threads (snd (dial_manager_rotate dm d)) = active_threads dm"
  by (simp add: dial_manager_rotate_def Let_def)

lemma muted_active [simp]:
  "active_threads (dial_manager_set_muted dm p m) = active_threads dm"
  by (simp add: dial_manager_set_muted_def)

lemma task_connected_active [simp]:
  "active_threads (dial_connection_task_connected dm p tick) = active_threads dm"
  by (simp add: dial_connection_task_connected_def)

lemma task_exit_active_le:
  "unat (active_threads (dial_connection_task_exit dm p)) \<le> unat (active_threads dm)"
  by (simp add: dial_connection_task_exit_def Let_def unat_dec_le)

lemma step_active_le:
  assumes "unat (active_threads dm) \<le> MAX_DIAL_THREADS"
  shows "unat (active_threads (dial_step dm op)) \<le> MAX_DIAL_THREADS"
proof (cases op)
  case (Save_slot p ct c n)
  then show ?thesis using save_active_le [of dm p ct c n] assms by simp
next
  case (Clear_slot p)
  then show ?thesis using clear_active_le [of dm p] assms by simp
next
  case (Connect pf p)
  then show ?thesis using connect_active_le [OF assms] by simp
next
  case (Disconnect p)
  then show ?thesis using disconnect_active_le [of dm p] assms by simp
next
  case Disconnect_all
  then show ?thesis
    using disconnect_fold_active_le [of "[0..<DIAL_POSITIONS]" dm] assms
    by (simp add: dial_manager_disconnect_all_def)
next
  case (Task_exit p)
  then show ?thesis using task_exit_active_le [of dm p] assms by simp
qed (use assms in simp_all)

lemma init_active: "active_threads (dial_manager_init nvs) = 0"
  by (simp add: dial_manager_init_def dial_manager_load_from_nvs_def)

lemma foldl_active_le:
  "unat (active_threads dm) \<le> MAX_DIAL_THREADS \<Longrightarrow>
     unat (active_threads (foldl dial_step dm ops)) \<le> MAX_DIAL_THREADS"
  by (induction ops arbitrary: dm) (simp_all add: step_active_le)

lemma run_active_le: "unat (active_threads (dial_run nvs ops)) \<le> MAX_DIAL_THREADS"
  unfolding dial_run_def by (rule foldl_active_le) (simp add: init_active)

text \<open>
  Claim C9. The count of active threads never exceeds 15: it is at most 15 after any
  sequence of steps on an initialised manager, and every single step keeps it so.
  With 15 threads counted, \<^verbatim>\<open>dial_manager_connect\<close> on a configured slot that is not
  connected fails in its thread-limit branch and leaves the manager, hence the count,
  as it was. On a slot that is not configured it fails in its not-configured branch and
  changes nothing; a call that succeeds was made on a configured slot, and when the slot
  was not connected already the count was below 15 and grows by one.
\<close>

theorem connect_slot_limit:
  "unat (active_threads (dial_run nvs ops)) \<le> MAX_DIAL_THREADS
   \<and> (unat (active_threads dm) \<le> MAX_DIAL_THREADS
        \<longrightarrow> unat (active_threads (dial_step dm op)) \<le> MAX_DIAL_THREADS)
   \<and> (unat position < DIAL_POSITIONS
        \<and> is_configured (slots dm ! unat position)
        \<and> state (slots dm ! unat position) \<noteq> DIAL_SLOT_CONNECTED
        \<and> unat (active_threads dm) \<ge> MAX_DIAL_THREADS
        \<longrightarrow> dial_manager_connect pf dm position = (Inl SlotLimitReached, dm))
   \<and> (unat position < DIAL_POSITIONS \<and> \<not> is_configured (slots dm ! unat position)
        \<longrightarrow> dial_manager_connect pf dm position = (Inl SlotUnconfigured, dm))
   \<and> (fst (dial_manager_connect pf dm position) = Inr ()
        \<longrightarrow> unat position < DIAL_POSITIONS \<and> is_configured (slots dm ! unat position))
   \<and> (fst (dial_manager_connect pf dm position) = Inr ()
        \<and> state (slots dm ! unat position) \<noteq> DIAL_SLOT_CONNECTED
        \<longrightarrow> unat (active_threads dm) < MAX_DIAL_THREADS
          \<and> unat (active_threads (snd (dial_manager_connect pf dm position)))
               = unat (active_threads dm) + 1)"
proof (intro conjI impI)
  show "unat (active_threads (dial_run nvs ops)) \<le> MAX_DIAL_THREADS"
    by (rule run_active_le)
next
  assume "unat (active_threads dm) \<le> MAX_DIAL_THREADS"
  then show "unat (active_threads (dial_step dm op)) \<le> MAX_DIAL_THREADS"
    by (rule step_active_le)
next
  assume "unat position < DIAL_POSITIONS
        \<and> is_configured (slots dm ! unat position)
        \<and> state (slots dm ! unat position) \<noteq> DIAL_SLOT_CONNECTED
        \<and> unat (active_threads dm) \<ge> MAX_DIAL_THREADS"
  then show "dial_manager_connect pf dm position = (Inl SlotLimitReached, dm)"
    by (simp add: dial_manager_connect_def)
next
  assume "unat position < DIAL_POSITIONS \<and> \<not> is_configured (slots dm ! unat position)"
  then show "dial_manager_connect pf dm position = (Inl SlotUnconfigured, dm)"
    by (simp add: dial_manager_connect_def)
next
  assume ok: "fst (dial_manager_connect pf dm position) = Inr ()"
  then show "unat position < DIAL_POSITIONS"
    by (auto simp: dial_manager_connect_def split: if_splits)
  from ok show "is_configured (slots dm ! unat position)"
    by (auto simp: dial_manager_connect_def Let_def split: if_splits)
next
  assume ok: "fst (dial_manager_connect pf dm position) = Inr ()
        \<and> state (slots dm ! unat position) \<noteq> DIAL_SLOT_CONNECTED"
  then show lt: "unat (active_threads dm) < MAX_DIAL_THREADS"
    by (auto simp: dial_manager_connect_def Let_def split: if_splits)
  then have "unat (active_threads dm + 1) = unat (active_threads dm) + 1"
    by (simp add: unat_inc MAX_DIAL_THREADS_def)
  with ok lt show "unat (active_threads (snd (dial_manager_connect pf dm position)))
               = unat (active_threads dm) + 1"
    by (auto simp: dial_manager_connect_def create_connection_thread_def Let_def
        split: if_splits platform.splits option.splits)
qed

theorem connect_slot_limit_witness:
  "unat (active_threads (dial_run no_nvs reconnect_ops)) = 15
   \<and> dial_manager_connect (ESP32 (Some 8)) (dial_run no_nvs reconnect_ops) 1
        = (Inl SlotLimitReached, dial_run no_nvs reconnect_ops)
   \<and> unat (active_threads (dial_run no_nvs connect_all_ops)) = 15
   \<and> unat (active_threads (dial_step (dial_run no_nvs connect_all_ops) (Connect Simulator 3))) \<le> 15
   \<and> dial_manager_connect Simulator (dial_manager_init no_nvs) 0
        = (Inl SlotUnconfigured, dial_manager_init no_nvs)
   \<and> fst (dial_manager_connect Simulator (dial_run no_nvs [Save_slot 4 DIAL_CONN_DEVICE (Some ''87654321'') None]) 4) = Inr ()
   \<and> unat (active_threads (snd (dial_manager_connect Simulator
        (dial_run no_nvs [Save_slot 4 DIAL_CONN_DEVICE (Some ''87654321'') None]) 4))) = 1"
proof -
  let ?dm = "dial_run no_nvs reconnect_ops"
  let ?dm1 = "dial_run no_nvs [Save_slot 4 DIAL_CONN_DEVICE (Some ''87654321'') None]"
  let ?dm2 = "dial_run no_nvs connect_all_ops"
  have a: "unat (active_threads ?dm) = 15" by code_simp
  have b: "is_configured (slots ?dm ! unat (1 :: uint8_t))" by code_simp
  have c: "state (slots ?dm ! unat (1 :: uint8_t)) \<noteq> DIAL_SLOT_CONNECTED" by code_simp
  have d: "unat (active_threads ?dm2) = 15" by code_simp
  have e: "\<not> is_configured (slots (dial_manager_init no_nvs) ! unat (0 :: uint8_t))" by code_simp
  have f: "fst (dial_manager_connect Simulator ?dm1 4) = Inr ()" by code_simp
  have g: "state (slots ?dm1 ! unat (4 :: uint8_t)) \<noteq> DIAL_SLOT_CONNECTED" by code_simp
  have h: "unat (active_threads ?dm1) = 0" by code_simp
  have p1: "unat (1 :: uint8_t) < DIAL_POSITIONS" and p0: "unat (0 :: uint8_t) < DIAL_POSITIONS"
    by (simp_all add: DIAL_POSITIONS_def)
  have a': "MAX_DIAL_THREADS \<le> unat (active_threads ?dm)"
    unfolding a by (simp add: MAX_DIAL_THREADS_def)
  have d': "unat (active_threads ?dm2) \<le> MAX_DIAL_THREADS"
    unfolding d by (simp add: MAX_DIAL_THREADS_def)
  note T = connect_slot_limit [of no_nvs reconnect_ops ?dm "Connect Simulator 3" 1 "ESP32 (Some 8)"]
  have limit: "dial_manager_connect (ESP32 (Some 8)) ?dm 1 = (Inl SlotLimitReached, ?dm)"
    using T p1 b c a' by blast
  note U = connect_slot_limit [of no_nvs connect_all_ops ?dm2 "Connect Simulator 3" 0 Simulator]
  have keep: "unat (active_threads (dial_step ?dm2 (Connect Simulator 3))) \<le> MAX_DIAL_THREADS"
    using U d' by blast
  note V = connect_slot_limit [of no_nvs "[]" "dial_manager_init no_nvs" "Connect Simulator 3" 0 Simulator]
  have unconf: "dial_manager_connect Simulator (dial_manager_init no_nvs) 0
        = (Inl SlotUnconfigured, dial_manager_init no_nvs)"
    using V p0 e by blast
  note W = connect_slot_limit [of no_nvs "[]" ?dm1 "Connect Simulator 3" 4 Simulator]
  have inc: "unat (active_threads (snd (dial_manager_connect Simulator ?dm1 4)))
               = unat (active_threads ?dm1) + 1"
    using W f g by blast
  show ?thesis
    using a limit d keep unconf f inc h
    by (simp only: MAX_DIAL_THREADS_def) simp
qed

text \<open>
  Claim C10. At most one slot has its audio flag set: this holds after any sequence of
  steps on an initialised manager, and every step (set_position, rotate, save, clear,
  connect, disconnect, disconnect_all, set_active_audio, set_muted, and the two sections
  of a worker task) keeps it. After
  \<^verbatim>\<open>dial_manager_set_active_audio(dm, i)\<close> with \<open>i < 15\<close> the flag of slot \<open>i\<close> is set and
  the flag of every other slot is clear.
\<close>

theorem active_audio_unique:
  "at_most_one_active_audio (dial_run nvs ops)
   \<and> (length (slots dm) = DIAL_POSITIONS \<and> at_most_one_active_audio dm
        \<longrightarrow> at_most_one_active_audio (dial_step dm op))
   \<and> (length (slots dm) = DIAL_POSITIONS \<and> unat i < DIAL_POSITIONS
        \<longrightarrow> fst (dial_manager_set_active_audio dm i) = True
          \<and> is_active_audio (slots (snd (dial_manager_set_active_audio dm i)) ! unat i)
          \<and> (\<forall>j<DIAL_POSITIONS. j \<noteq> unat i
                \<longrightarrow> \<not> is_active_audio (slots (snd (dial_manager_set_active_audio dm i)) ! j))
          \<and> audio_active_slots (snd (dial_manager_set_active_audio dm i)) = [unat i])"
proof (intro conjI impI)
  show "at_most_one_active_audio (dial_run nvs ops)"
    using run_wf_amo by simp
next
  assume "length (slots dm) = DIAL_POSITIONS \<and> at_most_one_active_audio dm"
  then show "at_most_one_active_audio (dial_step dm op)"
    using step_amo [of dm op] by (simp add: dial_wf_def)
next
  assume a: "length (slots dm) = DIAL_POSITIONS \<and> unat i < DIAL_POSITIONS"
  then have wf: "dial_wf dm" and i: "unat i < DIAL_POSITIONS" by (simp_all add: dial_wf_def)
  show "fst (dial_manager_set_active_audio dm i) = True"
    using i by (simp add: dial_manager_set_active_audio_def)
  show "is_active_audio (slots (snd (dial_manager_set_active_audio dm i)) ! unat i)"
    using set_audio_flags [OF wf i i] by simp
  show "\<forall>j<DIAL_POSITIONS. j \<noteq> unat i
          \<longrightarrow> \<not> is_active_audio (slots (snd (dial_manager_set_active_audio dm i)) ! j)"
    using set_audio_flags [OF wf i] by simp
  show "audio_active_slots (snd (dial_manager_set_active_audio dm i)) = [unat i]"
    by (rule set_audio_active_slots [OF wf i])
qed

theorem active_audio_unique_witness:
  "length (slots (dial_run no_nvs (connect_all_ops @ [Set_active_audio 2]))) = DIAL_POSITIONS
   \<and> audio_active_slots (dial_run no_nvs (connect_all_ops @ [Set_active_audio 2])) = [2]
   \<and> at_most_one_active_audio (dial_run no_nvs (connect_all_ops @ [Set_active_audio 2]))
   \<and> at_most_one_active_audio (dial_step (dial_run no_nvs (connect_all_ops @ [Set_active_audio 2])) (Rotate 1))
   \<and> audio_active_slots (dial_step (dial_run no_nvs (connect_all_ops @ [Set_active_audio 2])) (Rotate 1)) = [1]
   \<and> audio_active_slots (snd (dial_manager_set_active_audio
        (dial_run no_nvs (connect_all_ops @ [Set_active_audio 2])) 5)) = [unat (5 :: uint8_t)]"
proof -
  let ?dm = "dial_run no_nvs (connect_all_ops @ [Set_active_audio 2])"
  have a: "length (slots ?dm) = DIAL_POSITIONS" by code_simp
  have b: "audio_active_slots ?dm = [2]" by code_simp
  have c: "audio_active_slots (dial_step ?dm (Rotate 1)) = [1]" by code_simp
  have p: "unat (5 :: uint8_t) < DIAL_POSITIONS" by (simp add: DIAL_POSITIONS_def)
  note T = active_audio_unique [of no_nvs "connect_all_ops @ [Set_active_audio 2]" ?dm "Rotate 1" 5]
  have amo: "at_most_one_active_audio ?dm" using T by blast
  have amo': "at_most_one_active_audio (dial_step ?dm (Rotate 1))" using T a amo by blast
  have set5: "audio_active_slots (snd (dial_manager_set_active_audio ?dm 5)) = [unat (5 :: uint8_t)]"
    using T a p by blast
  show ?thesis
    using a b c amo amo' set5 by blast
qed

section \<open>Device id: results\<close>

lemma or_is_add: "push_bit 8 (v :: 32 word) OR ucast (b :: 8 word) = push_bit 8 v + ucast b"
proof (rule disjunctive_add [symmetric])
  fix n
  show "\<not> bit (push_bit 8 v) n \<or> \<not> bit (ucast b :: 32 word) n"
    by (auto simp: bit_simps dest: bit_imp_le_length)
qed

lemma shift_or_unat:
  assumes "unat (v :: 32 word) < 2 ^ 24"
  shows "unat (push_bit 8 v OR ucast (b :: 8 word)) = unat v * 256 + unat b"
proof -
  have b: "unat b < 256" using unsigned_less [of b] by simp
  have pb: "push_bit 8 v = v * 256" by (simp add: push_bit_eq_mult)
  have "unat (push_bit 8 v OR ucast b) = unat (v * 256 + ucast b)"
    by (subst or_is_add) (simp only: pb)
  also have "\<dots> = (unat v * 256 + unat b) mod 2 ^ 32"
  proof -
    have "unat b < 2 ^ 32" using b by simp
    then have "take_bit 32 (unat b) = unat b" by (rule take_bit_nat_eq_self)
    then have "unat (ucast b :: 32 word) = unat b"
      by (simp add: unsigned_ucast_eq)
    then show ?thesis
      by (simp add: unat_word_ariths mod_simps)
  qed
  also have "\<dots> = unat v * 256 + unat b"
    using assms b by simp
  finally show ?thesis .
qed

lemma value0_be32:
  "unat (fold (\<lambda>i (v :: uint32_t). push_bit 8 v OR ucast (h ! i)) [0..<4] 0) = be32 h"
proof -
  have b: "unat (h ! i) < 256" for i using unsigned_less [of "h ! i"] by simp
  let ?v1 = "push_bit 8 (0 :: uint32_t) OR ucast (h ! 0)"
  let ?v2 = "push_bit 8 ?v1 OR ucast (h ! 1)"
  let ?v3 = "push_bit 8 ?v2 OR ucast (h ! 2)"
  let ?v4 = "push_bit 8 ?v3 OR ucast (h ! 3)"
  have 1: "unat ?v1 = unat (h ! 0)" using shift_or_unat [of 0 "h ! 0"] by simp
  have 2: "unat ?v2 = unat (h ! 0) * 256 + unat (h ! 1)"
    using shift_or_unat [of ?v1 "h ! 1"] b [of 0] unfolding 1 by simp
  have 3: "unat ?v3 = (unat (h ! 0) * 256 + unat (h ! 1)) * 256 + unat (h ! 2)"
    using shift_or_unat [of ?v2 "h ! 2"] b [of 0] b [of 1] unfolding 2 by simp
  have 4: "unat ?v4 = ((unat (h ! 0) * 256 + unat (h ! 1)) * 256 + unat (h ! 2)) * 256 + unat (h ! 3)"
    using shift_or_unat [of ?v3 "h ! 3"] b [of 0] b [of 1] b [of 2] unfolding 3 by simp
  have "[0..<4] = [0, 1, 2, 3 :: nat]" by code_simp
  then have "fold (\<lambda>i (v :: uint32_t). push_bit 8 v OR ucast (h ! i)) [0..<4] 0 = ?v4"
    by simp
  then show ?thesis unfolding be32_def using 4 by simp
qed

lemma value1_unat:
  "unat ((v :: uint32_t) mod 90000000 + 10000000) = unat v mod 90000000 + 10000000"
proof -
  have m: "unat (v mod 90000000) = unat v mod 90000000"
    by (simp add: unat_mod)
  have "unat v mod 90000000 < 90000000" by simp
  then have "unat (v mod 90000000) + unat (10000000 :: uint32_t) < 2 ^ LENGTH(32)"
    unfolding m by simp
  then have "unat (v mod 90000000 + 10000000) = unat (v mod 90000000) + unat (10000000 :: uint32_t)"
    by (simp only: unat_add_lem)
  then show ?thesis unfolding m by simp
qed

lemma of_char_digit: "d < 10 \<Longrightarrow> (of_char (digit_char d) :: nat) = 48 + d"
  by (simp add: digit_char_def)

lemma isdigit_digit_char: "d < 10 \<Longrightarrow> isdigit (digit_char d)"
  by (simp add: isdigit_def of_char_digit)

lemma dec_string_digits: "c \<in> set (dec_string n) \<Longrightarrow> isdigit c"
proof (induction n rule: dec_string.induct)
  case (1 n)
  show ?case
  proof (cases "n < 10")
    case True
    with "1.prems" show ?thesis
      by (subst (asm) dec_string.simps) (simp add: isdigit_digit_char)
  next
    case False
    with "1.prems" have "c \<in> set (dec_string (n div 10)) \<or> c = digit_char (n mod 10)"
      by (subst (asm) dec_string.simps) auto
    then show ?thesis using "1.IH" False by (auto simp: isdigit_digit_char)
  qed
qed

lemma length_dec_string_le: "n < 10 ^ Suc k \<Longrightarrow> length (dec_string n) \<le> Suc k"
proof (induction k arbitrary: n)
  case 0
  then show ?case by (subst dec_string.simps) simp
next
  case (Suc k)
  show ?case
  proof (cases "n < 10")
    case True
    then show ?thesis by (subst dec_string.simps) simp
  next
    case False
    from Suc.prems have "n div 10 < 10 ^ Suc k" by (simp add: less_mult_imp_div_less)
    then have "length (dec_string (n div 10)) \<le> Suc k" by (rule Suc.IH)
    then show ?thesis using False by (subst dec_string.simps) simp
  qed
qed

lemma length_dec_string_ge: "10 ^ k \<le> n \<Longrightarrow> Suc k \<le> length (dec_string n)"
proof (induction k arbitrary: n)
  case 0
  then show ?case by (subst dec_string.simps) simp
next
  case (Suc k)
  have "(1 :: nat) \<le> 10 ^ k" by simp
  then have "(10 :: nat) \<le> 10 ^ Suc k" by simp
  with Suc.prems have ge: "10 \<le> n" by linarith
  from Suc.prems have "10 ^ k \<le> n div 10" by (simp add: less_eq_div_iff_mult_less_eq)
  then have "Suc k \<le> length (dec_string (n div 10))" by (rule Suc.IH)
  then show ?case using ge by (subst dec_string.simps) simp
qed

lemma decimal_value_dec_string: "decimal_value (dec_string n) = n"
proof (induction n rule: dec_string.induct)
  case (1 n)
  show ?case
  proof (cases "n < 10")
    case True
    then show ?thesis
      by (subst dec_string.simps) (simp add: decimal_value_def of_char_digit)
  next
    case False
    then have IH: "decimal_value (dec_string (n div 10)) = n div 10" by (rule "1.IH")
    have "decimal_value (dec_string n)
            = 10 * decimal_value (dec_string (n div 10)) + (of_char (digit_char (n mod 10)) - 48)"
      using False by (subst dec_string.simps) (simp add: decimal_value_def)
    then show ?thesis using IH by (simp add: of_char_digit)
  qed
qed

lemma length_simplified_hash_step [simp]:
  "length (simplified_hash_step p out) = length out"
  by (cases p) (simp add: simplified_hash_step_def Let_def)

lemma length_fold_simplified [simp]:
  "length (fold simplified_hash_step ps out) = length out"
  by (induction ps arbitrary: out) simp_all

lemma length_simplified_hash: "length (compute_sha256 Simplified_hash data) = 32"
  by (simp add: compute_sha256_def)

lemma c_strlen_digits: "(\<And>c. c \<in> set s \<Longrightarrow> isdigit c) \<Longrightarrow> c_strlen s = length s"
proof -
  assume d: "\<And>c. c \<in> set s \<Longrightarrow> isdigit c"
  have "takeWhile (\<lambda>c. of_char c \<noteq> (0 :: nat)) s = s"
  proof (rule takeWhile_eq_all_conv [THEN iffD2], rule ballI)
    fix c assume "c \<in> set s"
    then have "isdigit c" by (rule d)
    then show "of_char c \<noteq> (0 :: nat)" by (simp add: isdigit_def)
  qed
  then show ?thesis unfolding c_strlen_def by (rule arg_cong)
qed

lemma validate_digits:
  assumes "length s = DEVICE_ID_STRING_SIZE" "\<And>c. c \<in> set s \<Longrightarrow> isdigit c"
  shows "device_id_validate_format (Some s)"
proof -
  have len: "c_strlen s = DEVICE_ID_STRING_SIZE"
    using c_strlen_digits [of s] assms by simp
  have "list_all (\<lambda>i. isdigit (s ! i)) [0..<DEVICE_ID_STRING_SIZE]"
    using assms by (simp add: list_all_iff)
  then show ?thesis
    by (simp add: device_id_validate_format_def len)
qed

lemma length_sha256: "length (sha256 m) = 32"
  by (simp add: sha256_def Let_def be_bytes_def split: prod.splits)

text \<open>
  Known answers for \<open>sha256\<close>: the empty message, the one-block message \<^verbatim>\<open>abc\<close> and the
  two-block message of 56 characters of FIPS 180-4, then the six bytes used below.
\<close>

lemma sha256_empty:
  "sha256 [] =
     [0xE3, 0xB0, 0xC4, 0x42, 0x98, 0xFC, 0x1C, 0x14, 0x9A, 0xFB, 0xF4, 0xC8,
      0x99, 0x6F, 0xB9, 0x24, 0x27, 0xAE, 0x41, 0xE4, 0x64, 0x9B, 0x93, 0x4C,
      0xA4, 0x95, 0x99, 0x1B, 0x78, 0x52, 0xB8, 0x55]"
  by code_simp

lemma sha256_abc:
  "sha256 [0x61, 0x62, 0x63] =
     [0xBA, 0x78, 0x16, 0xBF, 0x8F, 0x01, 0xCF, 0xEA, 0x41, 0x41, 0x40, 0xDE,
      0x5D, 0xAE, 0x22, 0x23, 0xB0, 0x03, 0x61, 0xA3, 0x96, 0x17, 0x7A, 0x9C,
      0xB4, 0x10, 0xFF, 0x61, 0xF2, 0x00, 0x15, 0xAD]"
  by code_simp

lemma sha256_two_blocks:
  "sha256 [0x61, 0x62, 0x63, 0x64, 0x62, 0x63, 0x64, 0x65, 0x63, 0x64, 0x65, 0x66,
          0x64, 0x65, 0x66, 0x67, 0x65, 0x66, 0x67, 0x68, 0x66, 0x67, 0x68, 0x69,
          0x67, 0x68, 0x69, 0x6A, 0x68, 0x69, 0x6A, 0x6B, 0x69, 0x6A, 0x6B, 0x6C,
          0x6A, 0x6B, 0x6C, 0x6D, 0x6B, 0x6C, 0x6D, 0x6E, 0x6C, 0x6D, 0x6E, 0x6F,
          0x6D, 0x6E, 0x6F, 0x70, 0x6E, 0x6F, 0x70, 0x71] =
     [0x24, 0x8D, 0x6A, 0x61, 0xD2, 0x06, 0x38, 0xB8, 0xE5, 0xC0, 0x26, 0x93,
      0x0C, 0x3E, 0x60, 0x39, 0xA3, 0x3C, 0xE4, 0x59, 0x64, 0xFF, 0x21, 0x67,
      0xF6, 0xEC, 0xED, 0xD4, 0x19, 0xDB, 0x06, 0xC1]"
  by code_simp

lemma sha256_example:
  "sha256 [0xDE, 0xAD, 0xBE, 0xEF, 0x00, 0x01] =
     [0xE7, 0x75, 0x72, 0x39, 0x53, 0xEA, 0xD4, 0xA9, 0x04, 0x11, 0xA0, 0x29,
      0x08, 0xFD, 0x1A, 0x62, 0x9D, 0xB5, 0x84, 0xBC, 0x60, 0x06, 0x64, 0xC6,
      0x09, 0x06, 0x1F, 0x22, 0x1E, 0xF6, 0xBF, 0x7C]"
  by code_simp

lemma simplified_example:
  "compute_sha256 Simplified_hash [0xDE, 0xAD, 0xBE, 0xEF, 0x00, 0x01] =
     [0xDE, 0x40, 0x64, 0x04, 0xFE, 0x01, 0x10, 0x00, 0x00, 0x00, 0x00, 0x00,
      0x00, 0x00, 0x00, 0x00, 0x00, 0x00, 0x00, 0x00, 0x00, 0x00, 0x00, 0x00,
      0x00, 0x00, 0x00, 0x00, 0x00, 0x00, 0x00, 0x00]"
  by code_simp

lemma simplified_hash_step_nth:
  assumes "length out = 32" and "j < 32"
  shows "simplified_hash_step (i, d) out ! j
           = out ! j XOR (if i mod 32 = j then d else 0)
               XOR (if (i + 1) mod 32 = j then push_bit 4 d OR drop_bit 4 d else 0)"
proof -
  have ne: "i mod 32 \<noteq> (i + 1) mod 32"
    by (simp add: mod_Suc)
  have lt: "i mod 32 < 32" "(i + 1) mod 32 < 32" by simp_all
  show ?thesis
    using assms ne lt
    by (auto simp add: simplified_hash_step_def Let_def nth_list_update simp del: One_nat_def)
qed

lemma simplified_digest_byte_snoc:
  "simplified_digest_byte (xs @ [x]) j
     = simplified_digest_byte xs j XOR (if length xs mod 32 = j then x else 0)
         XOR (if (length xs + 1) mod 32 = j then push_bit 4 x OR drop_bit 4 x else 0)"
proof -
  have "fold (\<lambda>i acc. acc XOR (if i mod 32 = j then (xs @ [x]) ! i else 0)
                      XOR (if (i + 1) mod 32 = j
                           then push_bit 4 ((xs @ [x]) ! i) OR drop_bit 4 ((xs @ [x]) ! i) else 0))
          [0..<length xs] (0 :: uint8_t)
        = fold (\<lambda>i acc. acc XOR (if i mod 32 = j then xs ! i else 0)
                      XOR (if (i + 1) mod 32 = j
                           then push_bit 4 (xs ! i) OR drop_bit 4 (xs ! i) else 0))
          [0..<length xs] 0"
    by (rule fold_cong) (simp_all add: nth_append)
  then show ?thesis
    by (simp add: simplified_digest_byte_def)
qed

lemma simplified_hash_nth:
  "j < 32 \<Longrightarrow>
     fold simplified_hash_step (zip [0..<length data] data) (replicate 32 0) ! j
       = simplified_digest_byte data j"
proof (induction data rule: rev_induct)
  case Nil
  then show ?case by (simp add: simplified_digest_byte_def)
next
  case (snoc x xs)
  have z: "zip [0..<length (xs @ [x])] (xs @ [x]) = zip [0..<length xs] xs @ [(length xs, x)]"
    by simp
  have l: "length (fold simplified_hash_step (zip [0..<length xs] xs) (replicate 32 0)) = 32"
    by simp
  show ?case
    unfolding z fold_append comp_apply fold_simps
      simplified_hash_step_nth [OF l snoc.prems] simplified_digest_byte_snoc
      snoc.IH [OF snoc.prems] ..
qed

lemma simplified_hash_closed:
  "compute_sha256 Simplified_hash data = map (simplified_digest_byte data) [0..<32]"
  by (rule nth_equalityI) (simp_all add: compute_sha256_def simplified_hash_nth)

lemma raw_to_string_of_digest:
  assumes "0 < raw_size"
  shows "device_id_raw_to_string build (Some raw) raw_size (Some out)
           = Some (dec_string (be32 (compute_sha256 build (take raw_size raw)) mod 90000000 + 10000000))
       \<and> decimal_value (dec_string (be32 (compute_sha256 build (take raw_size raw)) mod 90000000 + 10000000))
           = be32 (compute_sha256 build (take raw_size raw)) mod 90000000 + 10000000
       \<and> length (dec_string (be32 (compute_sha256 build (take raw_size raw)) mod 90000000 + 10000000)) = 8
       \<and> 10000000 \<le> be32 (compute_sha256 build (take raw_size raw)) mod 90000000 + 10000000
       \<and> be32 (compute_sha256 build (take raw_size raw)) mod 90000000 + 10000000 \<le> 99999999
       \<and> device_id_validate_format
            (Some (dec_string (be32 (compute_sha256 build (take raw_size raw)) mod 90000000 + 10000000)))"
proof -
  define h where "h = compute_sha256 build (take raw_size raw)"
  define v where "v = be32 h mod 90000000 + 10000000"
  have lo: "10000000 \<le> v" by (simp add: v_def)
  have "be32 h mod 90000000 < 90000000" by simp
  then have hi: "v \<le> 99999999" unfolding v_def by linarith
  have "(10 :: nat) ^ 7 \<le> v" using lo by simp
  then have ge: "8 \<le> length (dec_string v)" using length_dec_string_ge [of 7 v] by simp
  have "v < 10 ^ Suc 7" using hi by simp
  then have le: "length (dec_string v) \<le> 8" using length_dec_string_le [of v 7] by simp
  have len: "length (dec_string v) = 8" using ge le by simp
  have pr: "take DEVICE_ID_STRING_SIZE (printf_08u v) = dec_string v"
    by (simp add: printf_08u_def len DEVICE_ID_STRING_SIZE_def)
  have val: "unat (fold (\<lambda>i (w :: uint32_t). push_bit 8 w OR ucast (h ! i)) [0..<4] 0
               mod 90000000 + 10000000) = v"
    unfolding value1_unat value0_be32 v_def ..
  have str: "device_id_raw_to_string build (Some raw) raw_size (Some out) = Some (dec_string v)"
    using assms(1) val pr
    by (simp add: device_id_raw_to_string_def Let_def h_def [symmetric])
  have ok: "device_id_validate_format (Some (dec_string v))"
    by (rule validate_digits) (simp_all add: len DEVICE_ID_STRING_SIZE_def dec_string_digits)
  show ?thesis
    unfolding h_def [symmetric] v_def [symmetric]
    using str len lo hi ok by (simp add: decimal_value_dec_string)
qed

lemma dec_string_48761860: "dec_string 48761860 = ''48761860''"
  by (simp add: dec_string.simps digit_char_def) code_simp

lemma dec_string_23233849: "dec_string 23233849 = ''23233849''"
  by (simp add: dec_string.simps digit_char_def) code_simp

text \<open>
  Claim C8, as the code has it. For a raw source of \<open>raw_size > 0\<close> bytes,
  \<^verbatim>\<open>device_id_raw_to_string\<close> writes the decimal digits of
  \<open>(x mod 90000000) + 10000000\<close>, where \<open>x\<close> is the big-endian value of the first four
  bytes of the digest \<^verbatim>\<open>compute_sha256\<close> returns. On the \<^verbatim>\<open>ESP32\<close> build the digest is
  SHA-256 of the raw bytes. On the simulator build it is not: byte \<open>j\<close> of the digest is
  the exclusive or of the raw bytes at the positions \<open>i\<close> with \<open>i mod 32 = j\<close> and of the
  nibble-swapped raw bytes at the positions with \<open>(i + 1) mod 32 = j\<close>. On either build
  the string has eight characters, denotes a number between 10000000 and 99999999, and
  \<^verbatim>\<open>device_id_validate_format\<close> accepts it.
\<close>

theorem device_id_per_build:
  assumes "0 < raw_size" and "raw_size \<le> length raw"
  shows "device_id_raw_to_string Mbedtls_sha256 (Some raw) raw_size (Some out)
           = Some (dec_string (be32 (sha256 (take raw_size raw)) mod 90000000 + 10000000))
       \<and> device_id_raw_to_string Simplified_hash (Some raw) raw_size (Some out)
           = Some (dec_string (be32 (map (simplified_digest_byte (take raw_size raw)) [0..<32])
                                 mod 90000000 + 10000000))
       \<and> (\<exists>v. device_id_raw_to_string build (Some raw) raw_size (Some out) = Some (dec_string v)
             \<and> v = be32 (compute_sha256 build (take raw_size raw)) mod 90000000 + 10000000
             \<and> 10000000 \<le> v \<and> v \<le> 99999999
             \<and> length (dec_string v) = 8
             \<and> decimal_value (dec_string v) = v
             \<and> device_id_validate_format (Some (dec_string v)))"
proof -
  have e: "compute_sha256 Mbedtls_sha256 (take raw_size raw) = sha256 (take raw_size raw)"
    by (simp add: compute_sha256_def)
  have 1: "device_id_raw_to_string Mbedtls_sha256 (Some raw) raw_size (Some out)
           = Some (dec_string (be32 (sha256 (take raw_size raw)) mod 90000000 + 10000000))"
    using raw_to_string_of_digest [OF assms(1), of Mbedtls_sha256 raw out] unfolding e
    by (rule conjunct1)
  have 2: "device_id_raw_to_string Simplified_hash (Some raw) raw_size (Some out)
           = Some (dec_string (be32 (map (simplified_digest_byte (take raw_size raw)) [0..<32])
                                 mod 90000000 + 10000000))"
    using raw_to_string_of_digest [OF assms(1), of Simplified_hash raw out]
    unfolding simplified_hash_closed by (rule conjunct1)
  show ?thesis
    using 1 2 raw_to_string_of_digest [OF assms(1), of build raw out] by blast
qed

theorem device_id_per_build_witness:
  "device_id_raw_to_string Mbedtls_sha256 (Some [0xDE, 0xAD, 0xBE, 0xEF, 0x00, 0x01]) 6 (Some [])
     = Some ''23233849''
   \<and> device_id_raw_to_string Simplified_hash (Some [0xDE, 0xAD, 0xBE, 0xEF, 0x00, 0x01]) 6 (Some [])
     = Some ''48761860''
   \<and> length ''23233849'' = 8
   \<and> decimal_value ''23233849'' = 23233849
   \<and> device_id_validate_format (Some ''23233849'')"
proof -
  let ?raw = "[0xDE, 0xAD, 0xBE, 0xEF, 0x00, 0x01] :: uint8_t list"
  have t: "take 6 ?raw = ?raw" by simp
  have a: "(0 :: nat) < 6" and b: "6 \<le> length ?raw" by simp_all
  note T = device_id_per_build [OF a b, of "[]" Mbedtls_sha256, unfolded t]
  have c: "compute_sha256 Mbedtls_sha256 ?raw = sha256 ?raw" by (simp add: compute_sha256_def)
  have h: "be32 (sha256 ?raw) mod 90000000 + 10000000 = 23233849"
    unfolding sha256_example by (simp add: be32_def)
  have g: "be32 (map (simplified_digest_byte ?raw) [0..<32]) mod 90000000 + 10000000 = 48761860"
    unfolding simplified_hash_closed [symmetric] simplified_example by (simp add: be32_def)
  have 1: "device_id_raw_to_string Mbedtls_sha256 (Some ?raw) 6 (Some []) = Some ''23233849''"
    using T unfolding h dec_string_23233849 by (rule conjunct1)
  have 2: "device_id_raw_to_string Simplified_hash (Some ?raw) 6 (Some []) = Some ''48761860''"
    using T unfolding g dec_string_48761860 by blast
  from T obtain v where
    v: "v = be32 (compute_sha256 Mbedtls_sha256 ?raw) mod 90000000 + 10000000"
       "length (dec_string v) = 8" "decimal_value (dec_string v) = v"
       "device_id_validate_format (Some (dec_string v))"
    by blast
  have "v = 23233849" using v(1) unfolding c h .
  then have d: "dec_string v = ''23233849''" and n: "v = 23233849"
    by (simp_all only: dec_string_23233849)
  have 3: "length ''23233849'' = 8" using v(2) unfolding d .
  have 4: "decimal_value ''23233849'' = 23233849"
    using v(3) unfolding n dec_string_23233849 .
  have 5: "device_id_validate_format (Some ''23233849'')" using v(4) unfolding d .
  show ?thesis using 1 2 3 4 5 by blast
qed

text \<open>
  Claim C8 as the specification words it fails on the simulator build: for the six raw
  bytes \<^verbatim>\<open>DE AD BE EF 00 01\<close> the digest \<^verbatim>\<open>compute_sha256\<close> returns begins
  \<^verbatim>\<open>DE 40 64 04\<close> and the id is 48761860, while SHA-256 of these bytes begins
  \<^verbatim>\<open>E7 75 72 39\<close> and would give the id 23233849.
\<close>

theorem device_id_simulator_digest_counterexample:
  "take 4 (compute_sha256 Simplified_hash [0xDE, 0xAD, 0xBE, 0xEF, 0x00, 0x01])
     = [0xDE, 0x40, 0x64, 0x04]
   \<and> take 4 (sha256 [0xDE, 0xAD, 0xBE, 0xEF, 0x00, 0x01]) = [0xE7, 0x75, 0x72, 0x39]
   \<and> device_id_raw_to_string Simplified_hash (Some [0xDE, 0xAD, 0xBE, 0xEF, 0x00, 0x01]) 6 (Some [])
     = Some ''48761860''
   \<and> dec_string (be32 (sha256 [0xDE, 0xAD, 0xBE, 0xEF, 0x00, 0x01]) mod 90000000 + 10000000)
     = ''23233849''"
proof -
  let ?raw = "[0xDE, 0xAD, 0xBE, 0xEF, 0x00, 0x01] :: uint8_t list"
  have t: "take 6 ?raw = ?raw" by simp
  have 1: "take 4 (compute_sha256 Simplified_hash ?raw) = [0xDE, 0x40, 0x64, 0x04]"
    unfolding simplified_example by simp
  have 2: "take 4 (sha256 ?raw) = [0xE7, 0x75, 0x72, 0x39]"
    unfolding sha256_example by simp
  have g: "be32 (compute_sha256 Simplified_hash ?raw) mod 90000000 + 10000000 = 48761860"
    unfolding simplified_example by (simp add: be32_def)
  have h: "be32 (sha256 ?raw) mod 90000000 + 10000000 = 23233849"
    unfolding sha256_example by (simp add: be32_def)
  have "(0 :: nat) < 6" by simp
  from raw_to_string_of_digest [OF this, of Simplified_hash ?raw "[]", unfolded t g]
  have 3: "device_id_raw_to_string Simplified_hash (Some ?raw) 6 (Some []) = Some ''48761860''"
    unfolding dec_string_48761860 by (rule conjunct1)
  have 4: "dec_string (be32 (sha256 ?raw) mod 90000000 + 10000000) = ''23233849''"
    unfolding h by (rule dec_string_23233849)
  show ?thesis using 1 2 3 4 by blast
qed

section \<open>Packet framing: results\<close>

lemma le16_rd16_word:
  "ucast (ucast (w :: uint16_t) :: uint8_t) OR push_bit 8 (ucast (ucast (drop_bit 8 w) :: uint8_t)) = w"
  by (rule bit_eqI) (auto simp: bit_simps dest: bit_imp_le_length)

lemma length_le16 [simp]: "length (le16 w) = 2"
  by (simp add: le16_def)

lemma rd16_le16: "rd16 (xs @ le16 w @ ys) (length xs) = w"
  by (simp add: rd16_def le16_def nth_append le16_rd16_word)

lemma rd16_lo: "ucast (rd16 buf off) = buf ! off"
  unfolding rd16_def by (rule bit_eqI) (auto simp: bit_simps dest: bit_imp_le_length)

lemma rd16_hi: "ucast (drop_bit 8 (rd16 buf off)) = buf ! (off + 1)"
  unfolding rd16_def by (rule bit_eqI) (auto simp: bit_simps dest: bit_imp_le_length)

lemma rd16_eq_iff:
  "rd16 buf off = w \<longleftrightarrow> buf ! off = ucast w \<and> buf ! (off + 1) = ucast (drop_bit 8 w)"
proof
  assume "rd16 buf off = w"
  then show "buf ! off = ucast w \<and> buf ! (off + 1) = ucast (drop_bit 8 w)"
    using rd16_lo [of buf off] rd16_hi [of buf off] by simp
next
  assume "buf ! off = ucast w \<and> buf ! (off + 1) = ucast (drop_bit 8 w)"
  then show "rd16 buf off = w"
    by (simp add: rd16_def le16_rd16_word)
qed

lemma length_hdr12 [simp]: "length (hdr12 t sid) = 4 + length sid"
  by (simp add: hdr12_def)

lemma build_clamp:
  "unat n > MAX_PACKET_SIZE - PACKET_HEADER_SIZE \<Longrightarrow>
     protocol_build_packet g t s p n out = protocol_build_packet g t s p 244 out"
proof -
  assume gt: "unat n > MAX_PACKET_SIZE - PACKET_HEADER_SIZE"
  have a: "(of_nat (MAX_PACKET_SIZE - PACKET_HEADER_SIZE) :: uint16_t) = 244"
    by (simp add: MAX_PACKET_SIZE_def PACKET_HEADER_SIZE_def)
  have b: "\<not> unat (244 :: uint16_t) > MAX_PACKET_SIZE - PACKET_HEADER_SIZE"
    by (simp add: MAX_PACKET_SIZE_def PACKET_HEADER_SIZE_def)
  show ?thesis
    unfolding protocol_build_packet_def by (simp only: gt a b if_True if_False)
qed

lemma build_payload:
  assumes s: "DEVICE_ID_LENGTH \<le> length s"
    and n: "unat n \<le> MAX_PACKET_SIZE - PACKET_HEADER_SIZE"
    and p: "unat n \<le> length p"
  shows "protocol_build_packet g t (Some s) (Some p) n (Some out) =
     (16 + n,
      Some (hdr12 t (take 8 s) @ le16 n
        @ le16 (protocol_crc16
                  (hdr12 t (take 8 s) @ le16 n @ le16 0 @ take (unat n) p @ drop (16 + unat n) out)
                  (16 + n))
        @ take (unat n) p @ drop (16 + unat n) out))"
proof -
  have l8: "length (take 8 s) = 8" using s by (simp add: DEVICE_ID_LENGTH_def)
  have lp: "min (length p) (unat n) = unat n" using p by simp
  show ?thesis
  proof (cases "n = 0")
    case True
    then show ?thesis using n l8
      by (simp add: protocol_build_packet_def Let_def write_at_def header_bytes_def hdr12_def
          sizeof_packet_header_t_def DEVICE_ID_LENGTH_def MAX_PACKET_SIZE_def PACKET_HEADER_SIZE_def)
  next
    case False
    then have "0 < n" by (simp add: word_greater_zero_iff)
    then show ?thesis using n l8 lp
      by (simp add: protocol_build_packet_def Let_def write_at_def header_bytes_def hdr12_def
          sizeof_packet_header_t_def DEVICE_ID_LENGTH_def MAX_PACKET_SIZE_def PACKET_HEADER_SIZE_def
          drop_Cons' take_Cons' add.commute [of "unat n" 16])
  qed
qed

lemma unat_packet_len:
  "unat n \<le> 244 \<Longrightarrow> unat (16 + (n :: uint16_t)) = 16 + unat n"
  by (simp add: unat_word_ariths)

lemma parse_frame:
  assumes sid: "length sid = 8"
    and n: "unat n \<le> 244"
    and P: "length P = unat n"
    and c: "c = protocol_crc16 (hdr12 t sid @ le16 n @ le16 0 @ P @ R) (16 + n)"
  shows "protocol_parse_packet (Some (hdr12 t sid @ le16 n @ le16 c @ P @ R)) (16 + n)
           = Some (\<lparr>magic = PACKET_MAGIC_VALUE, version = PROTOCOL_VERSION,
                    msg_type = message_code t, src_id = sid, payload_len = n, checksum = c\<rparr>,
                   P @ R)"
proof -
  define B where "B = hdr12 t sid @ le16 n @ le16 c @ P @ R"
  have lh: "length (hdr12 t sid) = 12" using sid by simp
  have m: "rd16 B 0 = PACKET_MAGIC_VALUE"
    using rd16_le16 [of "[]" PACKET_MAGIC_VALUE "[PROTOCOL_VERSION, message_code t] @ sid @ le16 n @ le16 c @ P @ R"]
    by (simp add: B_def hdr12_def)
  have v: "B ! 2 = PROTOCOL_VERSION" and mt: "B ! 3 = message_code t"
    by (simp_all add: B_def hdr12_def le16_def)
  have si: "take 8 (drop 4 B) = sid"
    using sid by (simp add: B_def hdr12_def)
  have pl: "rd16 B 12 = n"
    using rd16_le16 [of "hdr12 t sid" n "le16 c @ P @ R"] lh by (simp add: B_def)
  have ck: "rd16 B 14 = c"
    using rd16_le16 [of "hdr12 t sid @ le16 n" c "P @ R"] lh by (simp add: B_def)
  have z: "write_at B 14 (le16 0) = hdr12 t sid @ le16 n @ le16 0 @ P @ R"
    using lh by (simp add: B_def write_at_def)
  have rest: "drop 16 B = P @ R"
    using lh by (simp add: B_def)
  have rh: "read_header B = \<lparr>magic = PACKET_MAGIC_VALUE, version = PROTOCOL_VERSION,
                    msg_type = message_code t, src_id = sid, payload_len = n, checksum = c\<rparr>"
    by (simp add: read_header_def DEVICE_ID_LENGTH_def m v mt si pl ck)
  show ?thesis
    unfolding B_def [symmetric]
    using n by (simp add: protocol_parse_packet_def rh Let_def sizeof_packet_header_t_def
        DEVICE_ID_LENGTH_def z rest c unat_packet_len)
qed

lemma build_fst_nonzero:
  "fst (protocol_build_packet g t s p n (Some out)) \<noteq> 0"
proof -
  define plen :: uint16_t where
    "plen = (if unat n > MAX_PACKET_SIZE - PACKET_HEADER_SIZE
             then of_nat (MAX_PACKET_SIZE - PACKET_HEADER_SIZE) else n)"
  have le: "unat plen \<le> 244"
    by (simp add: plen_def MAX_PACKET_SIZE_def PACKET_HEADER_SIZE_def)
  have "fst (protocol_build_packet g t s p n (Some out)) = 16 + plen"
    by (simp add: protocol_build_packet_def Let_def plen_def sizeof_packet_header_t_def
        DEVICE_ID_LENGTH_def)
  moreover have "unat (16 + plen) = 16 + unat plen" using le by (rule unat_packet_len)
  ultimately show ?thesis by (metis add_is_0 unat_0 zero_neq_numeral)
qed

text \<open>
  Claim C1. For every message type, every source id of eight characters and every
  payload of at most \<^verbatim>\<open>MAX_PACKET_SIZE - PACKET_HEADER_SIZE\<close> = 244 bytes (the lengths the
  builder does not truncate), the returned length is the header size plus the payload
  length, and \<^verbatim>\<open>protocol_parse_packet\<close> on the built buffer with the returned length
  succeeds with magic 0x5754, version 1, the message type and source id given, the
  payload length given, and a payload view that starts with the payload.
\<close>

theorem framing_round_trip:
  assumes "length s = DEVICE_ID_LENGTH"
    and "length p = unat n"
    and "unat n \<le> MAX_PACKET_SIZE - PACKET_HEADER_SIZE"
  shows "unat (fst (protocol_build_packet g t (Some s) (Some p) n (Some out)))
           = sizeof_packet_header_t + length p
       \<and> map_option
           (\<lambda>(h, rest). (magic h, version h, msg_type h, src_id h, payload_len h,
              take (unat (payload_len h)) rest))
           (protocol_parse_packet
              (snd (protocol_build_packet g t (Some s) (Some p) n (Some out)))
              (fst (protocol_build_packet g t (Some s) (Some p) n (Some out))))
         = Some (0x5754, 1, message_code t, s, n, p)"
proof -
  have s8: "length s = 8" "take 8 s = s" using assms(1) by (simp_all add: DEVICE_ID_LENGTH_def)
  have n: "unat n \<le> 244"
    using assms(3) by (simp add: MAX_PACKET_SIZE_def PACKET_HEADER_SIZE_def)
  have p: "take (unat n) p = p" using assms(2) by simp
  define R where "R = drop (16 + unat n) out"
  define c where "c = protocol_crc16 (hdr12 t s @ le16 n @ le16 0 @ p @ R) (16 + n)"
  have b: "protocol_build_packet g t (Some s) (Some p) n (Some out)
             = (16 + n, Some (hdr12 t s @ le16 n @ le16 c @ p @ R))"
    using build_payload [of s n p g t out] assms by (simp add: s8 p R_def c_def)
  have q: "protocol_parse_packet (Some (hdr12 t s @ le16 n @ le16 c @ p @ R)) (16 + n)
             = Some (\<lparr>magic = PACKET_MAGIC_VALUE, version = PROTOCOL_VERSION,
                      msg_type = message_code t, src_id = s, payload_len = n, checksum = c\<rparr>,
                     p @ R)"
    by (rule parse_frame [OF s8(1) n assms(2) c_def])
  show ?thesis
    unfolding b using q n assms(2)
    by (simp add: unat_packet_len sizeof_packet_header_t_def DEVICE_ID_LENGTH_def
        PACKET_MAGIC_VALUE_def PROTOCOL_VERSION_def)
qed

theorem framing_round_trip_witness:
  "unat (fst (protocol_build_packet [0x31, 0x32, 0x33, 0x34, 0x35, 0x36, 0x37, 0x38, 0]
           MSG_CALL_REQUEST (Some [0x31, 0x32, 0x33, 0x34, 0x35, 0x36, 0x37, 0x38])
           (Some [0x38, 0x37, 0x36, 0x35, 0x34, 0x33, 0x32, 0x31]) 8 (Some (replicate 256 0))))
     = 24
   \<and> map_option
       (\<lambda>(h, rest). (magic h, version h, msg_type h, src_id h, payload_len h,
          take (unat (payload_len h)) rest))
       (protocol_parse_packet
          (snd (protocol_build_packet [0x31, 0x32, 0x33, 0x34, 0x35, 0x36, 0x37, 0x38, 0]
             MSG_CALL_REQUEST (Some [0x31, 0x32, 0x33, 0x34, 0x35, 0x36, 0x37, 0x38])
             (Some [0x38, 0x37, 0x36, 0x35, 0x34, 0x33, 0x32, 0x31]) 8 (Some (replicate 256 0))))
          (fst (protocol_build_packet [0x31, 0x32, 0x33, 0x34, 0x35, 0x36, 0x37, 0x38, 0]
             MSG_CALL_REQUEST (Some [0x31, 0x32, 0x33, 0x34, 0x35, 0x36, 0x37, 0x38])
             (Some [0x38, 0x37, 0x36, 0x35, 0x34, 0x33, 0x32, 0x31]) 8 (Some (replicate 256 0)))))
     = Some (0x5754, 1, 0x10, [0x31, 0x32, 0x33, 0x34, 0x35, 0x36, 0x37, 0x38], 8,
             [0x38, 0x37, 0x36, 0x35, 0x34, 0x33, 0x32, 0x31])"
proof -
  let ?s = "[0x31, 0x32, 0x33, 0x34, 0x35, 0x36, 0x37, 0x38] :: uint8_t list"
  let ?p = "[0x38, 0x37, 0x36, 0x35, 0x34, 0x33, 0x32, 0x31] :: uint8_t list"
  have a: "length ?s = DEVICE_ID_LENGTH" by (simp add: DEVICE_ID_LENGTH_def)
  have b: "length ?p = unat (8 :: uint16_t)" by simp
  have c: "unat (8 :: uint16_t) \<le> MAX_PACKET_SIZE - PACKET_HEADER_SIZE"
    by (simp add: MAX_PACKET_SIZE_def PACKET_HEADER_SIZE_def)
  show ?thesis
    using framing_round_trip [OF a b c, of "?s @ [0]" MSG_CALL_REQUEST "replicate 256 0"]
    by (simp add: sizeof_packet_header_t_def DEVICE_ID_LENGTH_def)
qed

lemma call_request_bytes:
  assumes s: "length s = DEVICE_ID_LENGTH" and tg: "length target = DEVICE_ID_LENGTH"
  shows "\<exists>c. protocol_build_packet g MSG_CALL_REQUEST (Some s) (Some target) 8 (Some out)
           = (24, Some ([0x54, 0x57, 1, 0x10] @ s @ [8, 0] @ le16 c @ target @ drop 24 out))"
proof -
  have s8: "take 8 s = s" "length s = 8" using s by (simp_all add: DEVICE_ID_LENGTH_def)
  have t8: "take 8 target = target" using tg by (simp add: DEVICE_ID_LENGTH_def)
  have h: "hdr12 MSG_CALL_REQUEST s = [0x54, 0x57, 1, 0x10] @ s"
    by (simp add: hdr12_def le16_def PACKET_MAGIC_VALUE_def PROTOCOL_VERSION_def)
  have l: "le16 8 = [8, 0]" by (simp add: le16_def)
  have "protocol_build_packet g MSG_CALL_REQUEST (Some s) (Some target) 8 (Some out)
          = (24, Some (hdr12 MSG_CALL_REQUEST s @ le16 8
                @ le16 (protocol_crc16
                          (hdr12 MSG_CALL_REQUEST s @ le16 8 @ le16 0 @ target @ drop 24 out) 24)
                @ target @ drop 24 out))"
    using build_payload [of s 8 target g MSG_CALL_REQUEST out] s tg
    by (simp add: s8 t8 DEVICE_ID_LENGTH_def MAX_PACKET_SIZE_def PACKET_HEADER_SIZE_def)
  then show ?thesis unfolding h l by auto
qed

text \<open>
  Claim C2, as the code has it. A \<^verbatim>\<open>CALL_REQUEST\<close> built from an eight-character source
  id and the eight-byte \<^verbatim>\<open>call_request_t\<close> has length 24: the packed header has 16 bytes
  (2 + 1 + 1 + 8 + 2 + 2), not 14. The frame starts with 0x54 0x57, has version 1 at
  offset 2 and message type 0x10 at offset 3, the source id at offsets 4 to 11, the
  payload length 8 as 0x08 0x00 at offsets 12 and 13, and the target id from offset 16.
\<close>

theorem call_request_frame:
  assumes "length s = DEVICE_ID_LENGTH" and "length target = DEVICE_ID_LENGTH"
  shows "fst (protocol_build_packet g MSG_CALL_REQUEST (Some s) (Some target) 8 (Some out)) = 24
       \<and> sizeof_packet_header_t = 16
       \<and> map_option
           (\<lambda>pkt. (pkt ! 0, pkt ! 1, pkt ! 2, pkt ! 3, take 8 (drop 4 pkt), pkt ! 12, pkt ! 13,
              take 8 (drop 16 pkt)))
           (snd (protocol_build_packet g MSG_CALL_REQUEST (Some s) (Some target) 8 (Some out)))
         = Some (0x54, 0x57, 1, 0x10, s, 8, 0, target)"
proof -
  from call_request_bytes [OF assms, of g out] obtain c where
    b: "protocol_build_packet g MSG_CALL_REQUEST (Some s) (Some target) 8 (Some out)
           = (24, Some ([0x54, 0x57, 1, 0x10] @ s @ [8, 0] @ le16 c @ target @ drop 24 out))"
    by blast
  have s8: "length s = 8" and t8: "length target = 8"
    using assms by (simp_all add: DEVICE_ID_LENGTH_def)
  show ?thesis
    unfolding b using s8 t8
    by (simp add: sizeof_packet_header_t_def DEVICE_ID_LENGTH_def nth_append)
qed

theorem call_request_frame_witness:
  "fst (protocol_build_packet [0x31, 0x32, 0x33, 0x34, 0x35, 0x36, 0x37, 0x38, 0]
          MSG_CALL_REQUEST (Some [0x31, 0x32, 0x33, 0x34, 0x35, 0x36, 0x37, 0x38])
          (Some [0x38, 0x37, 0x36, 0x35, 0x34, 0x33, 0x32, 0x31]) 8 (Some (replicate 256 0))) = 24
   \<and> map_option
       (\<lambda>pkt. (pkt ! 0, pkt ! 1, pkt ! 2, pkt ! 3, take 8 (drop 4 pkt), pkt ! 12, pkt ! 13,
          take 8 (drop 16 pkt)))
       (snd (protocol_build_packet [0x31, 0x32, 0x33, 0x34, 0x35, 0x36, 0x37, 0x38, 0]
          MSG_CALL_REQUEST (Some [0x31, 0x32, 0x33, 0x34, 0x35, 0x36, 0x37, 0x38])
          (Some [0x38, 0x37, 0x36, 0x35, 0x34, 0x33, 0x32, 0x31]) 8 (Some (replicate 256 0))))
     = Some (0x54, 0x57, 1, 0x10, [0x31, 0x32, 0x33, 0x34, 0x35, 0x36, 0x37, 0x38], 8, 0,
             [0x38, 0x37, 0x36, 0x35, 0x34, 0x33, 0x32, 0x31])"
proof -
  let ?s = "[0x31, 0x32, 0x33, 0x34, 0x35, 0x36, 0x37, 0x38] :: uint8_t list"
  let ?p = "[0x38, 0x37, 0x36, 0x35, 0x34, 0x33, 0x32, 0x31] :: uint8_t list"
  have a: "length ?s = DEVICE_ID_LENGTH" and b: "length ?p = DEVICE_ID_LENGTH"
    by (simp_all add: DEVICE_ID_LENGTH_def)
  show ?thesis
    using call_request_frame [OF a b, of "?s @ [0]" "replicate 256 0"]
    by (simp add: sizeof_packet_header_t_def DEVICE_ID_LENGTH_def)
qed

text \<open>
  Claim C2 as the specification words it fails: the frame of scenario 1 (source
  \<^verbatim>\<open>"12345678"\<close>, target \<^verbatim>\<open>"87654321"\<close>) has 24 bytes, not 22, and the header 16, not 14.
\<close>

theorem call_request_length_counterexample:
  "fst (protocol_build_packet [0x31, 0x32, 0x33, 0x34, 0x35, 0x36, 0x37, 0x38, 0]
          MSG_CALL_REQUEST (Some [0x31, 0x32, 0x33, 0x34, 0x35, 0x36, 0x37, 0x38])
          (Some [0x38, 0x37, 0x36, 0x35, 0x34, 0x33, 0x32, 0x31]) 8 (Some (replicate 256 0))) = 24
   \<and> (24 :: uint16_t) \<noteq> 22
   \<and> sizeof_packet_header_t = 16 \<and> sizeof_packet_header_t \<noteq> 14"
proof -
  let ?s = "[0x31, 0x32, 0x33, 0x34, 0x35, 0x36, 0x37, 0x38] :: uint8_t list"
  let ?p = "[0x38, 0x37, 0x36, 0x35, 0x34, 0x33, 0x32, 0x31] :: uint8_t list"
  have a: "length ?s = DEVICE_ID_LENGTH" and b: "length ?p = DEVICE_ID_LENGTH"
    by (simp_all add: DEVICE_ID_LENGTH_def)
  from call_request_bytes [OF a b, of "?s @ [0]" "replicate 256 0"] obtain c where
    "protocol_build_packet (?s @ [0]) MSG_CALL_REQUEST (Some ?s) (Some ?p) 8 (Some (replicate 256 0))
       = (24, Some ([0x54, 0x57, 1, 0x10] @ ?s @ [8, 0] @ le16 c @ ?p @ drop 24 (replicate 256 0)))"
    by blast
  then show ?thesis
    by (simp add: sizeof_packet_header_t_def DEVICE_ID_LENGTH_def)
qed

lemma build_oversized:
  assumes s: "DEVICE_ID_LENGTH \<le> length s"
    and n: "MAX_PACKET_SIZE - PACKET_HEADER_SIZE \<le> unat n"
    and p: "unat n \<le> length p"
  shows "\<exists>c. protocol_build_packet g t (Some s) (Some p) n (Some out)
           = (260, Some (hdr12 t (take 8 s) @ le16 244 @ le16 c @ take 244 p @ drop 260 out))"
proof -
  have p244: "unat (244 :: uint16_t) \<le> length p"
    using n p by (simp add: MAX_PACKET_SIZE_def PACKET_HEADER_SIZE_def)
  have n244: "unat (244 :: uint16_t) \<le> MAX_PACKET_SIZE - PACKET_HEADER_SIZE"
    by (simp add: MAX_PACKET_SIZE_def PACKET_HEADER_SIZE_def)
  have e: "protocol_build_packet g t (Some s) (Some p) n (Some out)
             = protocol_build_packet g t (Some s) (Some p) 244 (Some out)"
  proof (cases "unat n = 244")
    case True
    then have "unat n = unat (244 :: uint16_t)" by simp
    then have "n = 244" by (simp only: word_unat_eq_iff)
    then show ?thesis by simp
  next
    case False
    with n have "unat n > MAX_PACKET_SIZE - PACKET_HEADER_SIZE"
      by (simp add: MAX_PACKET_SIZE_def PACKET_HEADER_SIZE_def)
    then show ?thesis by (rule build_clamp)
  qed
  show ?thesis
    unfolding e using build_payload [OF s n244 p244, of g t out] by auto
qed

lemma emitted_shape:
  assumes sid: "length sid = 8" and m: "unat m \<le> 244" and mn: "unat m \<le> unat n"
    and p: "unat n \<le> length p"
  shows "\<exists>pkt. snd (16 + m, Some (hdr12 t sid @ le16 m @ le16 c @ take (unat m) p @ r)) = Some pkt
           \<and> unat (rd16 pkt 12) \<le> unat n
           \<and> unat (rd16 pkt 12) < MAX_PACKET_SIZE
           \<and> unat (fst (16 + m, Some (hdr12 t sid @ le16 m @ le16 c @ take (unat m) p @ r)))
               = sizeof_packet_header_t + unat (rd16 pkt 12)
           \<and> take (unat (rd16 pkt 12)) (drop sizeof_packet_header_t pkt)
               = take (unat (rd16 pkt 12)) p"
proof -
  define pkt where "pkt = hdr12 t sid @ le16 m @ le16 c @ take (unat m) p @ r"
  have sz: "sizeof_packet_header_t = 16"
    by (simp add: sizeof_packet_header_t_def DEVICE_ID_LENGTH_def)
  have r: "rd16 pkt 12 = m"
    unfolding pkt_def
    using rd16_le16 [of "hdr12 t sid" m "le16 c @ take (unat m) p @ r"] sid by simp
  have lp: "unat m \<le> length p" using mn p by simp
  have d: "take (unat m) (drop 16 pkt) = take (unat m) p"
    unfolding pkt_def using sid lp by (simp add: length_le16)
  have f: "unat (16 + m) = 16 + unat m" using m by (rule unat_packet_len)
  have lt: "unat m < MAX_PACKET_SIZE" using m by (simp add: MAX_PACKET_SIZE_def)
  have "snd (16 + m, Some pkt) = Some pkt
          \<and> unat (rd16 pkt 12) \<le> unat n
          \<and> unat (rd16 pkt 12) < MAX_PACKET_SIZE
          \<and> unat (fst (16 + m, Some pkt)) = sizeof_packet_header_t + unat (rd16 pkt 12)
          \<and> take (unat (rd16 pkt 12)) (drop sizeof_packet_header_t pkt)
              = take (unat (rd16 pkt 12)) p"
    unfolding r sz snd_conv fst_conv by (intro conjI refl mn lt f d)
  then show ?thesis unfolding pkt_def [symmetric] by (rule exI)
qed

lemma build_emitted:
  assumes s: "DEVICE_ID_LENGTH \<le> length s"
    and p: "unat n \<le> length p"
  shows "\<exists>pkt. snd (protocol_build_packet g t (Some s) (Some p) n (Some out)) = Some pkt
           \<and> unat (rd16 pkt 12) \<le> unat n
           \<and> unat (rd16 pkt 12) < MAX_PACKET_SIZE
           \<and> unat (fst (protocol_build_packet g t (Some s) (Some p) n (Some out)))
               = sizeof_packet_header_t + unat (rd16 pkt 12)
           \<and> take (unat (rd16 pkt 12)) (drop sizeof_packet_header_t pkt)
               = take (unat (rd16 pkt 12)) p"
proof (cases "unat n \<le> MAX_PACKET_SIZE - PACKET_HEADER_SIZE")
  case True
  have l8: "length (take 8 s) = 8" using s by (simp add: DEVICE_ID_LENGTH_def)
  from True have n244: "unat n \<le> 244"
    by (simp add: MAX_PACKET_SIZE_def PACKET_HEADER_SIZE_def)
  show ?thesis
    unfolding build_payload [OF s True p]
    by (rule emitted_shape [OF l8 n244 order_refl p])
next
  case False
  have l8: "length (take 8 s) = 8" using s by (simp add: DEVICE_ID_LENGTH_def)
  from False have gt: "unat n > MAX_PACKET_SIZE - PACKET_HEADER_SIZE" by simp
  then have mn: "unat (244 :: uint16_t) \<le> unat n"
    by (simp add: MAX_PACKET_SIZE_def PACKET_HEADER_SIZE_def)
  have m: "unat (244 :: uint16_t) \<le> 244" by simp
  have c: "unat (244 :: uint16_t) \<le> MAX_PACKET_SIZE - PACKET_HEADER_SIZE"
    by (simp add: MAX_PACKET_SIZE_def PACKET_HEADER_SIZE_def)
  have p244: "unat (244 :: uint16_t) \<le> length p" using mn p by (rule order_trans)
  show ?thesis
    unfolding build_clamp [OF gt] build_payload [OF s c p244]
    by (rule emitted_shape [OF l8 m mn p])
qed

text \<open>
  Claim C3, as the code has it. A payload whose length would make the packet longer than
  \<^verbatim>\<open>MAX_PACKET_SIZE\<close> (header size plus payload length above 256) is not rejected: the
  builder returns a non-zero length and emits a packet. The payload length stored in the
  header is at most the length asked for and below \<^verbatim>\<open>MAX_PACKET_SIZE\<close>, so a payload of
  256 bytes or more is cut short; the bytes behind the header are that many leading bytes
  of the payload, and the returned length is the header size plus the stored payload
  length. The only build that returns 0 and writes nothing is the one with a \<^verbatim>\<open>NULL\<close>
  output buffer.
\<close>

theorem oversized_payload_clamped:
  assumes "DEVICE_ID_LENGTH \<le> length s"
    and "MAX_PACKET_SIZE < sizeof_packet_header_t + unat n"
    and "unat n \<le> length p"
  shows "fst (protocol_build_packet g t (Some s) (Some p) n (Some out)) \<noteq> 0
       \<and> (\<exists>pkt. snd (protocol_build_packet g t (Some s) (Some p) n (Some out)) = Some pkt
             \<and> unat (rd16 pkt 12) \<le> unat n
             \<and> unat (rd16 pkt 12) < MAX_PACKET_SIZE
             \<and> unat (fst (protocol_build_packet g t (Some s) (Some p) n (Some out)))
                 = sizeof_packet_header_t + unat (rd16 pkt 12)
             \<and> take (unat (rd16 pkt 12)) (drop sizeof_packet_header_t pkt)
                 = take (unat (rd16 pkt 12)) p)
       \<and> protocol_build_packet g t (Some s) (Some p) n None = (0, None)"
proof -
  have a: "fst (protocol_build_packet g t (Some s) (Some p) n (Some out)) \<noteq> 0"
    by (rule build_fst_nonzero)
  have c: "protocol_build_packet g t (Some s) (Some p) n None = (0, None)"
    by (simp add: protocol_build_packet_def)
  show ?thesis
    using a build_emitted [OF assms(1) assms(3), of g t out] c by blast
qed

theorem oversized_payload_clamped_witness:
  "fst (protocol_build_packet [0x31, 0x32, 0x33, 0x34, 0x35, 0x36, 0x37, 0x38, 0]
          MSG_VOICE_DATA (Some [0x31, 0x32, 0x33, 0x34, 0x35, 0x36, 0x37, 0x38, 0])
          (Some (replicate 264 0xAA)) 264 (Some (replicate 256 0))) \<noteq> 0
   \<and> (\<exists>pkt. snd (protocol_build_packet [0x31, 0x32, 0x33, 0x34, 0x35, 0x36, 0x37, 0x38, 0]
          MSG_VOICE_DATA (Some [0x31, 0x32, 0x33, 0x34, 0x35, 0x36, 0x37, 0x38, 0])
          (Some (replicate 264 0xAA)) 264 (Some (replicate 256 0))) = Some pkt
         \<and> unat (rd16 pkt 12) < 264
         \<and> take (unat (rd16 pkt 12)) (drop sizeof_packet_header_t pkt)
             = replicate (unat (rd16 pkt 12)) 0xAA)
   \<and> fst (protocol_build_packet [0x31, 0x32, 0x33, 0x34, 0x35, 0x36, 0x37, 0x38, 0]
          MSG_MEMBER_LIST (Some [0x31, 0x32, 0x33, 0x34, 0x35, 0x36, 0x37, 0x38, 0])
          (Some (replicate 242 0x55)) 242 (Some (replicate 256 0))) \<noteq> 0"
proof -
  let ?g = "[0x31, 0x32, 0x33, 0x34, 0x35, 0x36, 0x37, 0x38, 0] :: uint8_t list"
  have a: "DEVICE_ID_LENGTH \<le> length ?g" by (simp add: DEVICE_ID_LENGTH_def)
  have b: "MAX_PACKET_SIZE < sizeof_packet_header_t + unat (264 :: uint16_t)"
    by (simp add: MAX_PACKET_SIZE_def sizeof_packet_header_t_def DEVICE_ID_LENGTH_def)
  have c: "unat (264 :: uint16_t) \<le> length (replicate 264 (0xAA :: uint8_t))" by simp
  have b': "MAX_PACKET_SIZE < sizeof_packet_header_t + unat (242 :: uint16_t)"
    by (simp add: MAX_PACKET_SIZE_def sizeof_packet_header_t_def DEVICE_ID_LENGTH_def)
  have c': "unat (242 :: uint16_t) \<le> length (replicate 242 (0x55 :: uint8_t))" by simp
  note T = oversized_payload_clamped [OF a b c, of ?g MSG_VOICE_DATA "replicate 256 0"]
  note T' = oversized_payload_clamped [OF a b' c', of ?g MSG_MEMBER_LIST "replicate 256 0"]
  have k: "(256 :: nat) < 264" by simp
  have t: "take l (replicate 264 (0xAA :: uint8_t)) = replicate l 0xAA" if "l < 256" for l
    using that by simp
  have 1: "fst (protocol_build_packet ?g MSG_VOICE_DATA (Some ?g) (Some (replicate 264 0xAA)) 264
             (Some (replicate 256 0))) \<noteq> 0"
    using T by blast
  from T obtain pkt where
    p: "snd (protocol_build_packet ?g MSG_VOICE_DATA (Some ?g) (Some (replicate 264 0xAA)) 264
             (Some (replicate 256 0))) = Some pkt"
      "unat (rd16 pkt 12) < MAX_PACKET_SIZE"
      "take (unat (rd16 pkt 12)) (drop sizeof_packet_header_t pkt)
         = take (unat (rd16 pkt 12)) (replicate 264 0xAA)"
    by blast
  from p(2) have l: "unat (rd16 pkt 12) < 256" by (simp add: MAX_PACKET_SIZE_def)
  then have l': "unat (rd16 pkt 12) < 264" by simp
  have 2: "\<exists>pkt. snd (protocol_build_packet ?g MSG_VOICE_DATA (Some ?g)
             (Some (replicate 264 0xAA)) 264 (Some (replicate 256 0))) = Some pkt
         \<and> unat (rd16 pkt 12) < 264
         \<and> take (unat (rd16 pkt 12)) (drop sizeof_packet_header_t pkt)
             = replicate (unat (rd16 pkt 12)) 0xAA"
    using p(1) l' p(3) [unfolded t [OF l]] by blast
  have 3: "fst (protocol_build_packet ?g MSG_MEMBER_LIST (Some ?g) (Some (replicate 242 0x55)) 242
             (Some (replicate 256 0))) \<noteq> 0"
    using T' by blast
  show ?thesis using 1 2 3 by blast
qed

text \<open>
  Claim C3 as the specification words it fails: a 264-byte payload (the size of
  \<^verbatim>\<open>voice_data_t\<close>, as \<^verbatim>\<open>protocol_send_voice\<close> passes it) would make the packet longer than
  256 bytes, yet the build is not rejected, and the returned length is 260.
\<close>

theorem oversized_payload_not_rejected_counterexample:
  "MAX_PACKET_SIZE < length (replicate 264 (0xAA :: uint8_t)) + sizeof_packet_header_t
   \<and> protocol_build_packet [0x31, 0x32, 0x33, 0x34, 0x35, 0x36, 0x37, 0x38, 0]
          MSG_VOICE_DATA (Some [0x31, 0x32, 0x33, 0x34, 0x35, 0x36, 0x37, 0x38, 0])
          (Some (replicate 264 0xAA)) 264 (Some (replicate 256 0)) \<noteq> (0, None)
   \<and> fst (protocol_build_packet [0x31, 0x32, 0x33, 0x34, 0x35, 0x36, 0x37, 0x38, 0]
          MSG_VOICE_DATA (Some [0x31, 0x32, 0x33, 0x34, 0x35, 0x36, 0x37, 0x38, 0])
          (Some (replicate 264 0xAA)) 264 (Some (replicate 256 0))) = 260
   \<and> MAX_PACKET_SIZE < unat (260 :: uint16_t)"
proof -
  let ?g = "[0x31, 0x32, 0x33, 0x34, 0x35, 0x36, 0x37, 0x38, 0] :: uint8_t list"
  have a: "DEVICE_ID_LENGTH \<le> length ?g" by (simp add: DEVICE_ID_LENGTH_def)
  have b: "MAX_PACKET_SIZE - PACKET_HEADER_SIZE \<le> unat (264 :: uint16_t)"
    by (simp add: MAX_PACKET_SIZE_def PACKET_HEADER_SIZE_def)
  have c: "unat (264 :: uint16_t) \<le> length (replicate 264 (0xAA :: uint8_t))" by simp
  from build_oversized [OF a b c, of ?g MSG_VOICE_DATA "replicate 256 0"] obtain crc where
    "protocol_build_packet ?g MSG_VOICE_DATA (Some ?g) (Some (replicate 264 0xAA)) 264
        (Some (replicate 256 0))
       = (260, Some (hdr12 MSG_VOICE_DATA (take 8 ?g) @ le16 244 @ le16 crc
            @ take 244 (replicate 264 0xAA) @ drop 260 (replicate 256 0)))"
    by blast
  then show ?thesis
    by (simp add: MAX_PACKET_SIZE_def sizeof_packet_header_t_def DEVICE_ID_LENGTH_def)
qed

text \<open>
  Claim C4. For every payload length of 244 or more the builder returns 260 and writes
  260 bytes: the clamp leaves room for \<^verbatim>\<open>PACKET_HEADER_SIZE\<close> = 12 bytes of header while
  the packed header takes 16. With the 256-byte \<^verbatim>\<open>g_tx_buffer\<close> as output the last four
  payload bytes (offsets 240 to 243 of the payload) land behind the end of the buffer.
\<close>

theorem tx_buffer_overrun:
  assumes "DEVICE_ID_LENGTH \<le> length s"
    and "MAX_PACKET_SIZE - PACKET_HEADER_SIZE \<le> unat n"
    and "unat n \<le> length p"
    and "length out = g_tx_buffer_size"
  shows "unat (fst (protocol_build_packet g t (Some s) (Some p) n (Some out))) = 260
       \<and> MAX_PACKET_SIZE < 260
       \<and> PACKET_HEADER_SIZE = 12 \<and> sizeof_packet_header_t = 16
       \<and> map_option length (snd (protocol_build_packet g t (Some s) (Some p) n (Some out)))
           = Some 260
       \<and> map_option (drop g_tx_buffer_size)
           (snd (protocol_build_packet g t (Some s) (Some p) n (Some out)))
           = Some (take 4 (drop 240 p))"
proof -
  from build_oversized [OF assms(1,2,3), of g t out] obtain c where
    b: "protocol_build_packet g t (Some s) (Some p) n (Some out)
           = (260, Some (hdr12 t (take 8 s) @ le16 244 @ le16 c @ take 244 p @ drop 260 out))"
    by blast
  have l8: "length (take 8 s) = 8" using assms(1) by (simp add: DEVICE_ID_LENGTH_def)
  have lp: "244 \<le> length p"
    using assms(2,3) by (simp add: MAX_PACKET_SIZE_def PACKET_HEADER_SIZE_def)
  have lo: "drop 260 out = []"
    using assms(4) by (simp add: g_tx_buffer_size_def MAX_PACKET_SIZE_def)
  have len: "length (hdr12 t (take 8 s) @ le16 244 @ le16 c @ take 244 p) = 260"
    using l8 lp by simp
  have dr: "drop 256 (hdr12 t (take 8 s) @ le16 244 @ le16 c @ take 244 p)
              = take 4 (drop 240 p)"
    using l8 lp by (simp add: drop_take)
  show ?thesis
    unfolding b lo using len dr
    by (simp add: g_tx_buffer_size_def MAX_PACKET_SIZE_def PACKET_HEADER_SIZE_def
        sizeof_packet_header_t_def DEVICE_ID_LENGTH_def)
qed

theorem tx_buffer_overrun_witness:
  "unat (fst (protocol_build_packet [0x31, 0x32, 0x33, 0x34, 0x35, 0x36, 0x37, 0x38, 0]
          MSG_VOICE_DATA (Some [0x31, 0x32, 0x33, 0x34, 0x35, 0x36, 0x37, 0x38, 0])
          (Some (replicate 264 0xAA)) 264 (Some (replicate 256 0)))) = 260
   \<and> map_option length
       (snd (protocol_build_packet [0x31, 0x32, 0x33, 0x34, 0x35, 0x36, 0x37, 0x38, 0]
          MSG_VOICE_DATA (Some [0x31, 0x32, 0x33, 0x34, 0x35, 0x36, 0x37, 0x38, 0])
          (Some (replicate 264 0xAA)) 264 (Some (replicate 256 0)))) = Some 260
   \<and> map_option (drop 256)
       (snd (protocol_build_packet [0x31, 0x32, 0x33, 0x34, 0x35, 0x36, 0x37, 0x38, 0]
          MSG_VOICE_DATA (Some [0x31, 0x32, 0x33, 0x34, 0x35, 0x36, 0x37, 0x38, 0])
          (Some (replicate 264 0xAA)) 264 (Some (replicate 256 0))))
       = Some [0xAA, 0xAA, 0xAA, 0xAA]"
proof -
  let ?g = "[0x31, 0x32, 0x33, 0x34, 0x35, 0x36, 0x37, 0x38, 0] :: uint8_t list"
  have a: "DEVICE_ID_LENGTH \<le> length ?g" by (simp add: DEVICE_ID_LENGTH_def)
  have b: "MAX_PACKET_SIZE - PACKET_HEADER_SIZE \<le> unat (264 :: uint16_t)"
    by (simp add: MAX_PACKET_SIZE_def PACKET_HEADER_SIZE_def)
  have c: "unat (264 :: uint16_t) \<le> length (replicate 264 (0xAA :: uint8_t))" by simp
  have d: "length (replicate 256 (0 :: uint8_t)) = g_tx_buffer_size"
    by (simp add: g_tx_buffer_size_def MAX_PACKET_SIZE_def)
  have e: "replicate 4 (0xAA :: uint8_t) = [0xAA, 0xAA, 0xAA, 0xAA]"
    by (simp add: numeral_eq_Suc)
  show ?thesis
    using tx_buffer_overrun [OF a b c d, of ?g MSG_VOICE_DATA]
    by (simp add: g_tx_buffer_size_def MAX_PACKET_SIZE_def e)
qed

lemma crc16_check_value:
  "protocol_crc16 [0x31, 0x32, 0x33, 0x34, 0x35, 0x36, 0x37, 0x38, 0x39] 9 = 0x29B1"
  by code_simp

lemma write_at_zero_checksum: "write_at buf 14 (le16 0) = take 14 buf @ [0, 0] @ drop 16 buf"
  by (simp add: write_at_def le16_def)

lemma magic_bytes: "rd16 buf 0 = PACKET_MAGIC_VALUE \<longleftrightarrow> buf ! 0 = 0x54 \<and> buf ! 1 = 0x57"
proof -
  have lo: "(ucast (0x5754 :: uint16_t) :: uint8_t) = 0x54" by simp
  have hi: "(ucast (drop_bit 8 (0x5754 :: uint16_t)) :: uint8_t) = 0x57" by simp
  show ?thesis
    unfolding rd16_eq_iff PACKET_MAGIC_VALUE_def lo hi by simp
qed

text \<open>
  Claim C5. On a buffer of at least \<^verbatim>\<open>buffer_len\<close> bytes \<^verbatim>\<open>protocol_parse_packet\<close> fails,
  producing neither header nor payload, exactly when the buffer is shorter than the
  16-byte header, or its first two bytes are not 0x54 0x57, or the version byte is not 1,
  or the payload length read at offset 12 exceeds \<^verbatim>\<open>buffer_len - 16\<close>, or the CRC of the
  first \<^verbatim>\<open>16 + payload_len\<close> bytes with the checksum bytes zeroed differs from the
  checksum read at offset 14. Otherwise it succeeds with the header read from the buffer
  and the payload view behind the header.
\<close>

theorem parse_result:
  assumes "unat buffer_len \<le> length buf"
  shows "protocol_parse_packet (Some buf) buffer_len =
     (if unat buffer_len < 16
         \<or> \<not> (buf ! 0 = 0x54 \<and> buf ! 1 = 0x57)
         \<or> buf ! 2 \<noteq> 1
         \<or> unat buffer_len - 16 < unat (rd16 buf 12)
         \<or> protocol_crc16 (take 14 buf @ [0, 0] @ drop 16 buf) (16 + rd16 buf 12) \<noteq> rd16 buf 14
      then None else Some (read_header buf, drop 16 buf))"
proof -
  have m: "magic (read_header buf) = PACKET_MAGIC_VALUE \<longleftrightarrow> buf ! 0 = 0x54 \<and> buf ! 1 = 0x57"
    by (simp add: read_header_def magic_bytes)
  have v: "version (read_header buf) = buf ! 2"
    and pl: "payload_len (read_header buf) = rd16 buf 12"
    and ck: "checksum (read_header buf) = rd16 buf 14"
    by (simp_all add: read_header_def DEVICE_ID_LENGTH_def)
  have len: "(of_nat (16 + unat (rd16 buf 12)) :: uint16_t) = 16 + rd16 buf 12"
    by simp
  have lt: "16 \<le> unat buffer_len \<Longrightarrow>
      unat buffer_len < 16 + unat (rd16 buf 12) \<longleftrightarrow> unat buffer_len - 16 < unat (rd16 buf 12)"
    by linarith
  show ?thesis
    unfolding protocol_parse_packet_def option.case Let_def sizeof_packet_header_t_def
      DEVICE_ID_LENGTH_def
    using lt
    by (simp add: m v pl ck len write_at_zero_checksum PROTOCOL_VERSION_def del: of_nat_add)
qed

theorem parse_result_witness:
  "protocol_parse_packet
      (Some [0x54, 0x57, 1, 0x13, 0x31, 0x32, 0x33, 0x34, 0x35, 0x36, 0x37, 0x38, 0, 0, 0x92, 0x95]) 16
     = Some (\<lparr>magic = 0x5754, version = 1, msg_type = 0x13,
               src_id = [0x31, 0x32, 0x33, 0x34, 0x35, 0x36, 0x37, 0x38],
               payload_len = 0, checksum = 0x9592\<rparr>, [])
   \<and> protocol_parse_packet
      (Some [0x54, 0x57, 1, 0x13, 0x31, 0x32, 0x33, 0x34, 0x35, 0x36, 0x37, 0x39, 0, 0, 0x92, 0x95]) 16
     = None
   \<and> protocol_parse_packet
      (Some [0x54, 0x57, 1, 0x13, 0x31, 0x32, 0x33, 0x34, 0x35, 0x36, 0x37, 0x38, 0, 0, 0x92, 0x95]) 15
     = None
   \<and> protocol_parse_packet
      (Some [0x54, 0x57, 1, 0x13, 0x31, 0x32, 0x33, 0x34, 0x35, 0x36, 0x37, 0x38, 1, 0, 0x92, 0x95]) 16
     = None
   \<and> protocol_parse_packet (Some (replicate 16 0)) 16 = None"
proof -
  let ?ok = "[0x54, 0x57, 1, 0x13, 0x31, 0x32, 0x33, 0x34, 0x35, 0x36, 0x37, 0x38, 0, 0, 0x92, 0x95] :: uint8_t list"
  let ?bad = "[0x54, 0x57, 1, 0x13, 0x31, 0x32, 0x33, 0x34, 0x35, 0x36, 0x37, 0x39, 0, 0, 0x92, 0x95] :: uint8_t list"
  let ?long = "[0x54, 0x57, 1, 0x13, 0x31, 0x32, 0x33, 0x34, 0x35, 0x36, 0x37, 0x38, 1, 0, 0x92, 0x95] :: uint8_t list"
  have crc_ok: "protocol_crc16 (take 14 ?ok @ [0, 0] @ drop 16 ?ok) 16 = 0x9592" by code_simp
  have crc_bad: "protocol_crc16 (take 14 ?bad @ [0, 0] @ drop 16 ?bad) 16 \<noteq> 0x9592" by code_simp
  have pl: "rd16 ?ok 12 = 0" "rd16 ?bad 12 = 0" "rd16 ?long 12 = 1"
    by (simp_all add: rd16_def)
  have ck: "rd16 ?ok 14 = 0x9592" "rd16 ?bad 14 = 0x9592"
    by (simp_all add: rd16_def)
  have hd: "read_header ?ok = \<lparr>magic = 0x5754, version = 1, msg_type = 0x13,
               src_id = [0x31, 0x32, 0x33, 0x34, 0x35, 0x36, 0x37, 0x38],
               payload_len = 0, checksum = 0x9592\<rparr>"
    by (simp add: read_header_def rd16_def DEVICE_ID_LENGTH_def)
  have 1: "protocol_parse_packet (Some ?ok) 16 = Some (read_header ?ok, [])"
    using parse_result [of 16 ?ok] crc_ok by (simp add: pl ck)
  have 2: "protocol_parse_packet (Some ?bad) 16 = None"
    using parse_result [of 16 ?bad] crc_bad by (simp add: pl ck)
  have 3: "protocol_parse_packet (Some ?ok) 15 = None"
    using parse_result [of 15 ?ok] by simp
  have 4: "protocol_parse_packet (Some ?long) 16 = None"
    using parse_result [of 16 ?long] by (simp add: pl)
  have 5: "protocol_parse_packet (Some (replicate 16 0)) 16 = None"
    using parse_result [of 16 "replicate 16 0"] by simp
  show ?thesis
    unfolding 1 2 3 4 5 hd by simp
qed

end
